theory Spec2Isabelle
  imports Main
begin

section \<open>JavaScript values\<close>

text \<open>
  \<open>checkEmail\<close> is compiled TypeScript: at run time \<open>options.domains\<close> and
  \<open>options.max\<close> hold arbitrary JavaScript values, and the code itself inspects them
  with \<open>typeof\<close>, \<open>Array.isArray\<close> and truthiness. The values are modelled as a datatype.

  A number is an IEEE double. The only operations the code applies to a number are the
  truthiness test, \<open>typeof\<close> and the conversion to a string inside a template literal, so a
  finite non-zero number is represented by what the conversion reads: its sign, the digits
  \<open>s\<close> of its shortest decimal representation and the decimal exponent \<open>n\<close> with
  value \<open>s * 10 ^ (n - k)\<close>, \<open>k\<close> the number of digits of \<open>s\<close> (ECMAScript,
  Number::toString, step 5). Every finite non-zero double has such a representation, so a
  statement proved for all \<open>Finite sign s n\<close> holds for all finite non-zero doubles.
  The sign flag is \<open>True\<close> for a negative number.
\<close>

datatype jsnum = NaN | Infinity bool | Zero bool | Finite bool nat int

datatype jsval =
    JUndefined
  | JNull
  | JBool bool
  | JNum jsnum
  | JStr string
  | JArr "jsval list"
  | JObj

text \<open>\<open>JObj\<close> stands for any object that is not an array.\<close>

fun truthy :: "jsval \<Rightarrow> bool" where
  "truthy JUndefined = False"
| "truthy JNull = False"
| "truthy (JBool b) = b"
| "truthy (JNum NaN) = False"
| "truthy (JNum (Zero sign)) = False"
| "truthy (JNum (Infinity sign)) = True"
| "truthy (JNum (Finite sign s n)) = True"
| "truthy (JStr s) = (s \<noteq> [])"
| "truthy (JArr xs) = True"
| "truthy JObj = True"

fun typeof :: "jsval \<Rightarrow> string" where
  "typeof JUndefined = ''undefined''"
| "typeof JNull = ''object''"
| "typeof (JBool b) = ''boolean''"
| "typeof (JNum x) = ''number''"
| "typeof (JStr s) = ''string''"
| "typeof (JArr xs) = ''object''"
| "typeof JObj = ''object''"

fun isArray :: "jsval \<Rightarrow> bool" where
  "isArray (JArr xs) = True"
| "isArray v = False"

fun elements :: "jsval \<Rightarrow> jsval list" where
  "elements (JArr xs) = xs"
| "elements v = []"

text \<open>Reading \<open>a[0]\<close>: \<open>undefined\<close> when there is no such element.\<close>

fun first_element :: "jsval \<Rightarrow> jsval" where
  "first_element (JArr (x # xs)) = x"
| "first_element v = JUndefined"

subsection \<open>Conversion to strings\<close>

definition digit_char :: "nat \<Rightarrow> char" where
  "digit_char d = ''0123456789'' ! d"

function decimal :: "nat \<Rightarrow> string" where
  "decimal n = (if n < 10 then [digit_char n] else decimal (n div 10) @ [digit_char (n mod 10)])"
  by pat_completeness auto
termination
  by (relation "measure id") auto

text \<open>
  Number::toString (radix 10), steps 6 to 10, on the digits of \<open>s\<close> and the exponent
  \<open>n\<close>: positional notation for \<open>-5 \<le> n \<le> 21\<close>, scientific notation otherwise.
\<close>

definition format_digits :: "string \<Rightarrow> int \<Rightarrow> string" where
  "format_digits ds n =
     (let k = int (length ds) in
      if -5 \<le> n \<and> n \<le> 21 then
        (if k \<le> n then ds @ replicate (nat (n - k)) (CHR ''0'')
         else if 0 < n then take (nat n) ds @ ''.'' @ drop (nat n) ds
         else ''0.'' @ replicate (nat (- n)) (CHR ''0'') @ ds)
      else
        (let e = decimal (nat \<bar>n - 1\<bar>);
             c = (if n < 0 then ''-'' else ''+'')
         in if k = 1 then ds @ ''e'' @ c @ e
            else take 1 ds @ ''.'' @ drop 1 ds @ ''e'' @ c @ e))"

fun Number_toString :: "jsnum \<Rightarrow> string" where
  "Number_toString NaN = ''NaN''"
| "Number_toString (Zero sign) = ''0''"
| "Number_toString (Infinity sign) = (if sign then ''-Infinity'' else ''Infinity'')"
| "Number_toString (Finite sign s n) =
     (if sign then ''-'' else []) @ format_digits (decimal s) n"

fun join :: "string \<Rightarrow> string list \<Rightarrow> string" where
  "join sep [] = []"
| "join sep [x] = x"
| "join sep (x # y # ys) = x @ sep @ join sep (y # ys)"

text \<open>
  ToString, as applied by template literals, \<open>RegExp.prototype.test\<close> and
  \<open>Array.prototype.join\<close>. An array is its elements joined by a comma, \<open>undefined\<close>
  and \<open>null\<close> elements giving the empty string. \<open>JObj\<close> is given the text of a plain
  object; no path of \<open>checkEmail\<close> converts one.
\<close>

fun ToString :: "jsval \<Rightarrow> string" where
  "ToString JUndefined = ''undefined''"
| "ToString JNull = ''null''"
| "ToString (JBool b) = (if b then ''true'' else ''false'')"
| "ToString (JNum x) = Number_toString x"
| "ToString (JStr s) = s"
| "ToString (JArr xs) =
     join '','' (map (\<lambda>x. case x of JUndefined \<Rightarrow> [] | JNull \<Rightarrow> [] | _ \<Rightarrow> ToString x) xs)"
| "ToString JObj = ''[object Object]''"

text \<open>\<open>String.prototype.split\<close> with a one-character separator.\<close>

fun split :: "char \<Rightarrow> string \<Rightarrow> string list" where
  "split sep [] = [[]]"
| "split sep (c # cs) =
     (if c = sep then [] # split sep cs
      else (case split sep cs of [] \<Rightarrow> [[c]] | p # ps \<Rightarrow> (c # p) # ps))"

text \<open>
  The array destructuring \<open>const [name, extension] = parts\<close>: the first two elements,
  \<open>undefined\<close> where the array is too short.
\<close>

fun destructure2 :: "string list \<Rightarrow> jsval \<times> jsval" where
  "destructure2 [] = (JUndefined, JUndefined)"
| "destructure2 [a] = (JStr a, JUndefined)"
| "destructure2 (a # b # rest) = (JStr a, JStr b)"

section \<open>Regular expressions\<close>

text \<open>
  The program builds its patterns at run time with \<open>new RegExp(source)\<close>, which parses
  the source text and throws a SyntaxError when the text is not a pattern. The
  constructor is modelled by a parser for the part of the ECMAScript pattern grammar
  (without the \<open>u\<close> flag, so with the web-compatibility rules of Annex B) that the
  program's patterns can reach; constructs outside that part yield \<open>NotModelled\<close>.
\<close>

datatype exn = SyntaxError | NotModelled

datatype cset =
    Dot
  | Word
  | Digit
  | Lit char
  | Class bool "(char \<times> char) list"

datatype regex =
    Eps
  | Bol
  | Eol
  | Sym cset
  | Seq regex regex
  | Alt regex regex
  | Rep nat "nat option" regex

definition code :: "char \<Rightarrow> nat" where
  "code c = of_char c"

definition is_digit :: "char \<Rightarrow> bool" where
  "is_digit c = (48 \<le> code c \<and> code c \<le> 57)"

definition is_alpha :: "char \<Rightarrow> bool" where
  "is_alpha c = ((65 \<le> code c \<and> code c \<le> 90) \<or> (97 \<le> code c \<and> code c \<le> 122))"

definition is_word :: "char \<Rightarrow> bool" where
  "is_word c = (is_alpha c \<or> is_digit c \<or> c = CHR ''_'')"

text \<open>
  Which characters a character set accepts. \<open>.\<close> accepts everything but a line
  terminator; \<open>\w\<close> is \<open>[A-Za-z0-9_]\<close>; a class is a list of ranges, possibly negated.
\<close>

fun accepts :: "cset \<Rightarrow> char \<Rightarrow> bool" where
  "accepts Dot c = (c \<noteq> CHR 0x0A \<and> c \<noteq> CHR 0x0D)"
| "accepts Word c = is_word c"
| "accepts Digit c = is_digit c"
| "accepts (Lit a) c = (c = a)"
| "accepts (Class negated ranges) c =
     (negated \<noteq> list_ex (\<lambda>(lo, hi). code lo \<le> code c \<and> code c \<le> code hi) ranges)"

subsection \<open>Parsing a pattern\<close>

datatype token =
    TBol
  | TEol
  | TSym cset
  | TQuant nat "nat option"
  | TOpen
  | TClose
  | TBar

definition number_of :: "string \<Rightarrow> nat" where
  "number_of ds = foldl (\<lambda>acc c. 10 * acc + (code c - 48)) 0 ds"

text \<open>
  The text after an opening brace, when it is a quantifier \<open>{n}\<close>, \<open>{n,}\<close> or
  \<open>{n,m}\<close>: its bounds and the text after the closing brace. Under Annex B a brace
  that does not open a quantifier is an ordinary character.
\<close>

definition braced :: "string \<Rightarrow> ((nat \<times> nat option) \<times> string) option" where
  "braced cs =
     (let d1 = takeWhile is_digit cs; r1 = dropWhile is_digit cs in
      if d1 = [] then None
      else (case r1 of
          [] \<Rightarrow> None
        | c # r2 \<Rightarrow>
            if c = CHR ''}'' then Some ((number_of d1, Some (number_of d1)), r2)
            else if c = CHR '','' then
              (let d2 = takeWhile is_digit r2; r3 = dropWhile is_digit r2 in
               case r3 of
                 [] \<Rightarrow> None
               | c' # r4 \<Rightarrow>
                   if c' = CHR ''}''
                   then Some ((number_of d1, if d2 = [] then None else Some (number_of d2)), r4)
                   else None)
            else None))"

text \<open>A \<open>?\<close> right after a quantifier makes it lazy, which does not change what matches.\<close>

fun lazy :: "string \<Rightarrow> string" where
  "lazy [] = []"
| "lazy (c # cs) = (if c = CHR ''?'' then cs else c # cs)"

text \<open>
  The body of a character class, after \<open>[\<close> or \<open>[^\<close>: the ranges up to the closing
  bracket and the text after it. A class that is not closed, or a range out of order, is
  a SyntaxError. Escapes inside a class are not modelled.
\<close>

definition add_range ::
  "char \<times> char \<Rightarrow> exn + ((char \<times> char) list \<times> string) \<Rightarrow> exn + ((char \<times> char) list \<times> string)" where
  "add_range r res = (case res of Inl e \<Rightarrow> Inl e | Inr (ranges, after) \<Rightarrow> Inr (r # ranges, after))"

fun class_body :: "string \<Rightarrow> exn + ((char \<times> char) list \<times> string)" where
  "class_body [] = Inl SyntaxError"
| "class_body (a # dash # b # rest) =
     (if a = CHR '']'' then Inr ([], dash # b # rest)
      else if a = CHR 0x5C then Inl NotModelled
      else if dash = CHR ''-'' \<and> b \<noteq> CHR '']'' then
        (if b = CHR 0x5C then Inl NotModelled
         else if code b < code a then Inl SyntaxError
         else add_range (a, b) (class_body rest))
      else add_range (a, a) (class_body (dash # b # rest)))"
| "class_body (a # cs) =
     (if a = CHR '']'' then Inr ([], cs)
      else if a = CHR 0x5C then Inl NotModelled
      else add_range (a, a) (class_body cs))"

definition is_syntax_char :: "char \<Rightarrow> bool" where
  "is_syntax_char c = (c \<in> set ''^$.*+?()[]{}|/-'' \<or> c = CHR 0x5C)"

definition emit :: "token \<Rightarrow> exn + token list \<Rightarrow> exn + token list" where
  "emit t r = (case r of Inl e \<Rightarrow> Inl e | Inr ts \<Rightarrow> Inr (t # ts))"


lemma braced_shorter: "braced cs = Some (q, r) \<Longrightarrow> length r < length cs"
proof -
  have dw: "length (dropWhile is_digit xs) \<le> length xs" for xs :: string
    by (rule length_dropWhile_le)
  have step: "dropWhile is_digit xs = c # r' \<Longrightarrow> length r' < length xs" for xs c r'
    using dw [of xs] by simp
  assume "braced cs = Some (q, r)"
  then show ?thesis
    unfolding braced_def Let_def
    by (auto split: if_splits list.splits dest!: step)
qed

lemma lazy_le: "length (lazy cs) \<le> length cs"
  by (cases cs) auto

lemma add_range_Inr: "add_range r res = Inr (ranges, after) \<Longrightarrow> \<exists>rs. res = Inr (rs, after)"
  by (auto simp: add_range_def split: sum.splits)

lemma class_body_shorter: "class_body cs = Inr (ranges, after) \<Longrightarrow> length after < length cs"
  by (induction cs arbitrary: ranges rule: class_body.induct)
     (fastforce split: if_splits dest!: add_range_Inr)+

definition out_of_order :: "nat \<times> nat option \<Rightarrow> bool" where
  "out_of_order bounds = (case snd bounds of None \<Rightarrow> False | Some hi \<Rightarrow> hi < fst bounds)"

fun negated :: "string \<Rightarrow> bool" where
  "negated [] = False"
| "negated (c # cs) = (c = CHR ''^'')"

fun class_start :: "string \<Rightarrow> string" where
  "class_start [] = []"
| "class_start (c # cs) = (if c = CHR ''^'' then cs else c # cs)"

lemma class_start_le: "length (class_start cs) \<le> length cs"
  by (cases cs) auto

lemma braced_lazy: "braced cs = Some (bounds, rest) \<Longrightarrow> length (lazy rest) \<le> length cs"
  using braced_shorter [of cs bounds rest] lazy_le [of rest] by simp

lemma class_rest: "class_body (class_start cs) = Inr (ranges, rest) \<Longrightarrow> length rest \<le> length cs"
  using class_body_shorter [of "class_start cs" ranges rest] class_start_le [of cs] by simp

function tokenise :: "string \<Rightarrow> exn + token list" where
  "tokenise [] = Inr []"
| "tokenise (c # cs) =
     (if c = CHR ''^'' then emit TBol (tokenise cs)
      else if c = CHR ''$'' then emit TEol (tokenise cs)
      else if c = CHR ''.'' then emit (TSym Dot) (tokenise cs)
      else if c = CHR ''|'' then emit TBar (tokenise cs)
      else if c = CHR '')'' then emit TClose (tokenise cs)
      else if c = CHR ''('' then
        (if cs \<noteq> [] \<and> hd cs = CHR ''?'' then Inl NotModelled else emit TOpen (tokenise cs))
      else if c = CHR ''*'' then emit (TQuant 0 None) (tokenise (lazy cs))
      else if c = CHR ''+'' then emit (TQuant 1 None) (tokenise (lazy cs))
      else if c = CHR ''?'' then emit (TQuant 0 (Some 1)) (tokenise (lazy cs))
      else if c = CHR ''{'' then
        (case braced cs of
           None \<Rightarrow> emit (TSym (Lit c)) (tokenise cs)
         | Some (bounds, rest) \<Rightarrow>
             if out_of_order bounds then Inl SyntaxError
             else emit (TQuant (fst bounds) (snd bounds)) (tokenise (lazy rest)))
      else if c = CHR ''['' then
        (case class_body (class_start cs) of
           Inl e \<Rightarrow> Inl e
         | Inr (ranges, rest) \<Rightarrow> emit (TSym (Class (negated cs) ranges)) (tokenise rest))
      else if c = CHR 0x5C then
        (case cs of
           [] \<Rightarrow> Inl SyntaxError
         | e # rest \<Rightarrow>
             if e = CHR ''w'' then emit (TSym Word) (tokenise rest)
             else if e = CHR ''d'' then emit (TSym Digit) (tokenise rest)
             else if is_syntax_char e then emit (TSym (Lit e)) (tokenise rest)
             else Inl NotModelled)
      else emit (TSym (Lit c)) (tokenise cs))"
  by pat_completeness auto
termination
  by (relation "measure length") (auto simp: less_Suc_eq_le lazy_le braced_lazy class_rest)

text \<open>
  The token list is parsed with a stack of open groups. A frame holds the alternatives of
  the group that are complete and the terms of the current alternative, both in reverse
  order; a term carries whether a quantifier may follow it (an atom, but not an assertion
  and not a term that already has a quantifier). A capture group matches what its body
  matches, and \<open>test\<close> does not observe captures, so a group is its body.
\<close>

type_synonym frame = "regex list \<times> (regex \<times> bool) list"

definition sequence :: "(regex \<times> bool) list \<Rightarrow> regex" where
  "sequence terms = foldr Seq (rev (map fst terms)) Eps"

fun disjunction :: "regex list \<Rightarrow> regex" where
  "disjunction [] = Eps"
| "disjunction [r] = r"
| "disjunction (r # rs) = Alt r (disjunction rs)"

definition close_frame :: "frame \<Rightarrow> regex" where
  "close_frame f = disjunction (rev (sequence (snd f) # fst f))"

fun parse :: "frame \<Rightarrow> frame list \<Rightarrow> token list \<Rightarrow> exn + regex" where
  "parse f stack [] = (if stack = [] then Inr (close_frame f) else Inl SyntaxError)"
| "parse f stack (TBol # ts) = parse (fst f, (Bol, False) # snd f) stack ts"
| "parse f stack (TEol # ts) = parse (fst f, (Eol, False) # snd f) stack ts"
| "parse f stack (TSym cs # ts) = parse (fst f, (Sym cs, True) # snd f) stack ts"
| "parse f stack (TQuant lo hi # ts) =
     (case snd f of
        [] \<Rightarrow> Inl SyntaxError
      | (r, quantifiable) # terms \<Rightarrow>
          if quantifiable then parse (fst f, (Rep lo hi r, False) # terms) stack ts
          else Inl SyntaxError)"
| "parse f stack (TOpen # ts) = parse ([], []) (f # stack) ts"
| "parse f stack (TClose # ts) =
     (case stack of
        [] \<Rightarrow> Inl SyntaxError
      | outer # stack' \<Rightarrow> parse (fst outer, (close_frame f, True) # snd outer) stack' ts)"
| "parse f stack (TBar # ts) = parse (sequence (snd f) # fst f, []) stack ts"

definition RegExp_new :: "string \<Rightarrow> exn + regex" where
  "RegExp_new source =
     (case tokenise source of Inl e \<Rightarrow> Inl e | Inr ts \<Rightarrow> parse ([], []) [] ts)"

subsection \<open>Matching\<close>

text \<open>
  A matcher state is the input that is left and whether the position is the start of the
  input. \<open>run r S\<close> lists the states in which a match of \<open>r\<close> that begins in a state
  of \<open>S\<close> can end. It follows every branch that the backtracking matcher of ECMAScript
  may take, all of them at once; \<open>test\<close> only reports whether a match exists, and the
  patterns have no backreference or lookaround, so the order of the branches does not
  show.
\<close>

type_synonym state = "bool \<times> string"

fun dec :: "nat option \<Rightarrow> nat option" where
  "dec None = None"
| "dec (Some n) = Some (n - 1)"

definition maxlen :: "state list \<Rightarrow> nat" where
  "maxlen F = foldr (\<lambda>st n. max (length (snd st)) n) F 0"

lemma maxlen_bound: "st \<in> set F \<Longrightarrow> length (snd st) \<le> maxlen F"
  unfolding maxlen_def by (induction F) auto

lemma maxlen_less: "\<forall>st \<in> set F. length (snd st) < n \<Longrightarrow> F \<noteq> [] \<Longrightarrow> maxlen F < n"
proof (induction F)
  case Nil
  then show ?case by simp
next
  case (Cons st F)
  then show ?case
    by (cases "F = []") (auto simp: maxlen_def)
qed

text \<open>
  The optional iterations of a quantifier (RepeatMatcher with lower bound 0): from the
  states reached last, one more iteration reaches new states, until the upper bound is
  used up or nothing new is reached. An iteration that consumed nothing is abandoned
  (step 2.b of RepeatMatcher's continuation); the matcher never moves backwards, so an
  iteration that consumed something leaves less input than the longest state it
  started from.
\<close>

function closure ::
  "(state list \<Rightarrow> state list) \<Rightarrow> nat option \<Rightarrow> state list \<Rightarrow> state list \<Rightarrow> state list" where
  "closure step hi seen frontier =
     (if frontier = [] \<or> hi = Some 0 then seen
      else (let new = filter (\<lambda>y. y \<notin> set seen \<and> length (snd y) < maxlen frontier)
                             (remdups (step frontier))
            in closure step (dec hi) (seen @ new) new))"
  by pat_completeness auto
termination
proof (relation "measure (\<lambda>(step, hi, seen, frontier). if frontier = [] then 0 else Suc (maxlen frontier))",
    goal_cases)
  case 1
  show ?case by simp
next
  case (2 step hi seen frontier new)
  then show ?case
    using maxlen_less [of new "maxlen frontier"] by (cases "new = []") auto
qed

text \<open>The mandatory iterations come first; each uses up one of the upper bound too.\<close>

fun repeat :: "(state list \<Rightarrow> state list) \<Rightarrow> nat \<Rightarrow> nat option \<Rightarrow> state list \<Rightarrow> state list" where
  "repeat step 0 hi S = closure step hi (remdups S) (remdups S)"
| "repeat step (Suc lo) hi S = (if hi = Some 0 then S else repeat step lo (dec hi) (step S))"

definition consume :: "cset \<Rightarrow> state \<Rightarrow> state list" where
  "consume cs st =
     (case snd st of
        [] \<Rightarrow> []
      | c # rest \<Rightarrow> if accepts cs c then [(False, rest)] else [])"

fun run :: "regex \<Rightarrow> state list \<Rightarrow> state list" where
  "run Eps S = S"
| "run Bol S = filter fst S"
| "run Eol S = filter (\<lambda>st. snd st = []) S"
| "run (Sym cs) S = remdups (concat (map (consume cs) S))"
| "run (Seq r1 r2) S = run r2 (run r1 S)"
| "run (Alt r1 r2) S = remdups (run r1 S @ run r2 S)"
| "run (Rep lo hi r) S = repeat (run r) lo hi S"

text \<open>
  RegExpBuiltinExec without the \<open>g\<close> and \<open>y\<close> flags: the match is tried at position
  0, then at each later position up to the end of the input.
\<close>

fun scan :: "regex \<Rightarrow> state \<Rightarrow> bool" where
  "scan r (start, []) = (run r [(start, [])] \<noteq> [])"
| "scan r (start, c # cs) = (run r [(start, c # cs)] \<noteq> [] \<or> scan r (False, cs))"

definition test :: "regex \<Rightarrow> string \<Rightarrow> bool" where
  "test r s = scan r (True, s)"

section \<open>The program\<close>

text \<open>
  HOL string literals cannot hold a backslash. The pattern texts of the source are
  written with \<open>%\<close> where the source has a backslash (no pattern of the source has a
  \<open>%\<close>), and \<open>pattern\<close> puts the backslashes back.
\<close>

definition pattern :: "string \<Rightarrow> string" where
  "pattern s = map (\<lambda>c. if c = CHR ''%'' then CHR 0x5C else c) s"

text \<open>A regular expression literal; a literal that is not a pattern does not compile.\<close>

definition regex_literal :: "string \<Rightarrow> regex" where
  "regex_literal source =
     (case RegExp_new source of Inl e \<Rightarrow> Sym (Class False []) | Inr r \<Rightarrow> r)"

record CheckEmailOptions =
  domains :: jsval
  max_opt :: jsval

text \<open>
  An absent field of \<open>options\<close> reads as \<open>undefined\<close>. The field \<open>max\<close> of the source
  is \<open>max_opt\<close> here.
\<close>

record ValidationResult =
  valid :: bool
  error :: jsval

text \<open>In a \<open>ValidationResult\<close>, \<open>error = JUndefined\<close> says that the object has no \<open>error\<close>.\<close>

definition DOMAIN_REGEX :: regex where
  "DOMAIN_REGEX = regex_literal (pattern ''^%w+%.[a-zA-Z]{2,}$'')"

definition EMAIL_WITH_DOMAIN_REGEX :: "jsval \<Rightarrow> jsval \<Rightarrow> exn + regex" where
  "EMAIL_WITH_DOMAIN_REGEX name extension =
     RegExp_new (pattern ''^%w+([.-]?%w+)*@'' @ ToString name @ pattern ''%.''
                 @ ToString extension @ ''$'')"

text \<open>A parameter with the default value \<open>null\<close>: the default replaces \<open>undefined\<close>.\<close>

definition default_null :: "jsval \<Rightarrow> jsval" where
  "default_null v = (if v = JUndefined then JNull else v)"

definition getResponse :: "bool \<Rightarrow> jsval \<Rightarrow> jsval \<Rightarrow> ValidationResult" where
  "getResponse is_valid email_arg error_arg =
     (let email = default_null email_arg; err = default_null error_arg in
      if is_valid then \<lparr>valid = is_valid, error = JUndefined\<rparr>
      else
        (let message = (if truthy err then err
                        else JStr (ToString email @ '' is not a valid email.''))
         in \<lparr>valid = is_valid, error = (if \<not> is_valid then message else JNull)\<rparr>))"

definition Array_join :: "string \<Rightarrow> jsval list \<Rightarrow> string" where
  "Array_join sep xs =
     join sep (map (\<lambda>x. case x of JUndefined \<Rightarrow> [] | JNull \<Rightarrow> [] | _ \<Rightarrow> ToString x) xs)"

definition validateDomains :: "jsval list \<Rightarrow> ValidationResult" where
  "validateDomains ds =
     (let errors = filter (\<lambda>domain. \<not> test DOMAIN_REGEX (ToString domain)) ds;
          hasErrors = (0 < length errors);
          message = (if hasErrors
                     then JStr (''['' @ Array_join '', '' errors @ ''] are not valid domains.'')
                     else JNull)
      in getResponse (\<not> hasErrors) JNull message)"

text \<open>
  The loop of \<open>checkEmail\<close> over the domains: \<open>isValid\<close> at the end of the loop, or the
  exception of a \<open>RegExp\<close> constructor.
\<close>

fun match_domains :: "string \<Rightarrow> jsval list \<Rightarrow> exn + bool" where
  "match_domains email [] = Inr False"
| "match_domains email (domain # rest) =
     (case destructure2 (split (CHR ''.'') (ToString domain)) of
        (name, extension) \<Rightarrow>
          (case EMAIL_WITH_DOMAIN_REGEX name extension of
             Inl e \<Rightarrow> Inl e
           | Inr re \<Rightarrow> if test re email then Inr True else match_domains email rest))"

definition three :: jsval where
  "three = JNum (Finite False 3 1)"

definition checkEmail :: "string \<Rightarrow> CheckEmailOptions \<Rightarrow> exn + ValidationResult" where
  "checkEmail email options =
     (let ds = domains options; mx = default_null (max_opt options) in
      if truthy mx \<and> typeof mx \<noteq> ''number''
      then Inr (getResponse False JNull (JStr ''`max` can only have a value of number.''))
      else if \<not> truthy ds \<or> (isArray ds \<and> length (elements ds) = 0) then
        (case RegExp_new (pattern ''^%w+([.-]?%w+)*@%w+([.-]?%w+)*(%.%w{2,''
                          @ ToString (if truthy mx then mx else three) @ pattern ''})+$'') of
           Inl e \<Rightarrow> Inl e
         | Inr standardPattern \<Rightarrow>
             Inr (getResponse (test standardPattern email) (JStr email) JUndefined))
      else
        (let isDomainsString = (typeof ds = ''string'');
             isDomainsValidArray =
               (isArray ds \<and> list_all (\<lambda>domain. typeof domain = ''string'') (elements ds));
             isStringOrArray = (isDomainsString \<or> isDomainsValidArray)
         in
         if \<not> isStringOrArray
         then Inr (getResponse False JNull
                (JStr ''`domains` can only have a value of string or array of strings.''))
         else if truthy mx
         then Inr (getResponse False JNull
                (JStr ''`max` can only be used if `domains` are not provided.''))
         else if isDomainsString \<or> length (elements ds) = 1 then
           (let emailDomain = (if isDomainsString then ds else first_element ds) in
            if \<not> test DOMAIN_REGEX (ToString emailDomain)
            then Inr (getResponse False (JStr email)
                   (JStr (''`'' @ ToString ds @ ''` is not a valid domain.'')))
            else
              (case destructure2 (split (CHR ''.'') (ToString emailDomain)) of
                 (name, extension) \<Rightarrow>
                   (case EMAIL_WITH_DOMAIN_REGEX name extension of
                      Inl e \<Rightarrow> Inl e
                    | Inr re \<Rightarrow> Inr (getResponse (test re email) (JStr email) JUndefined))))
         else
           (let domainResults = validateDomains (elements ds) in
            if truthy (error domainResults)
            then Inr (getResponse False (JStr email) (error domainResults))
            else
              (case match_domains email (elements ds) of
                 Inl e \<Rightarrow> Inl e
               | Inr isValid \<Rightarrow> Inr (getResponse isValid (JStr email) JUndefined)))))"

section \<open>The result builder\<close>

lemma getResponse_True: "getResponse True e m = \<lparr>valid = True, error = JUndefined\<rparr>"
  by (simp add: getResponse_def)

lemma getResponse_message:
  "m \<noteq> [] \<Longrightarrow> getResponse False e (JStr m) = \<lparr>valid = False, error = JStr m\<rparr>"
  by (simp add: getResponse_def default_null_def)

lemma getResponse_default:
  "\<not> truthy m \<Longrightarrow>
   getResponse False e m =
     \<lparr>valid = False, error = JStr (ToString (default_null e) @ '' is not a valid email.'')\<rparr>"
  by (cases m) (auto simp: getResponse_def default_null_def)

section \<open>Option handling\<close>

text \<open>
  Claim C1: for every email and every options value \<open>checkEmail\<close> returns a
  \<open>ValidationResult\<close> and never throws, in particular for every numeric \<open>max\<close>,
  \<open>max = 1\<close> included. The code does not do that: with \<open>max = 1\<close> the pattern text
  holds the quantifier \<open>{2,1}\<close>, whose bounds are out of order, and the \<open>RegExp\<close>
  constructor throws a SyntaxError that \<open>checkEmail\<close> does not catch.
\<close>

theorem checkEmail_max_one_throws:
  "checkEmail ''a@b.co'' \<lparr>domains = JUndefined, max_opt = JNum (Finite False 1 1)\<rparr> =
     Inl SyntaxError"
  by code_simp

text \<open>So the call returns no \<open>ValidationResult\<close> at all.\<close>

theorem checkEmail_max_one_throws_witness:
  "\<not> (\<exists>r. checkEmail ''a@b.co''
           \<lparr>domains = JUndefined, max_opt = JNum (Finite False 1 1)\<rparr> = Inr r)"
  using checkEmail_max_one_throws by simp

text \<open>
  Claim C2, as amended: for every email, when \<open>domains\<close> is a non-empty string or a
  non-empty list of strings and \<open>max\<close> is a truthy number (any number but \<open>0\<close>, \<open>-0\<close>
  and \<open>NaN\<close>), \<open>checkEmail\<close> returns the mutual-exclusion error, whatever the email is.
\<close>

theorem max_excludes_domains:
  assumes "truthy (JNum n)"
    and "(ds = JStr d \<and> d \<noteq> []) \<or> (ds = JArr (map JStr xs) \<and> xs \<noteq> [])"
  shows "checkEmail email \<lparr>domains = ds, max_opt = JNum n\<rparr> =
           Inr \<lparr>valid = False,
                error = JStr ''`max` can only be used if `domains` are not provided.''\<rparr>"
  using assms
  by (auto simp: checkEmail_def getResponse_message default_null_def list_all_iff)

theorem max_excludes_domains_witness:
  "truthy three \<and>
   checkEmail ''bad-email'' \<lparr>domains = JStr ''example.com'', max_opt = three\<rparr> =
     Inr \<lparr>valid = False,
          error = JStr ''`max` can only be used if `domains` are not provided.''\<rparr>"
  using max_excludes_domains
    [of "Finite False 3 1" "JStr ''example.com''" "''example.com''" "[]" "''bad-email''"]
  by (simp add: three_def)

text \<open>
  The claim as stated fails for \<open>max = 0\<close>: a domain and a \<open>max\<close> value are both
  supplied, and the email is accepted.
\<close>

theorem max_excludes_domains_counterexample:
  "checkEmail ''test@example.com''
     \<lparr>domains = JStr ''example.com'', max_opt = JNum (Zero False)\<rparr> =
     Inr \<lparr>valid = True, error = JUndefined\<rparr>"
  by code_simp

text \<open>
  Claim C3, as amended: for every email and every \<open>domains\<close> value, when \<open>max\<close> is
  truthy and is not a number, \<open>checkEmail\<close> returns the type error of \<open>max\<close>; so does
  \<open>checkEmail('a@b.c', { max: 'three' })\<close>.
\<close>

theorem max_type_guard:
  assumes "truthy mx" and "typeof mx \<noteq> ''number''"
  shows "checkEmail email \<lparr>domains = ds, max_opt = mx\<rparr> =
           Inr \<lparr>valid = False, error = JStr ''`max` can only have a value of number.''\<rparr>
         \<and> checkEmail ''a@b.c'' \<lparr>domains = JUndefined, max_opt = JStr ''three''\<rparr> =
           Inr \<lparr>valid = False, error = JStr ''`max` can only have a value of number.''\<rparr>"
proof -
  have "mx \<noteq> JUndefined" using assms(1) by auto
  then have "default_null mx = mx" by (simp add: default_null_def)
  then show ?thesis
    using assms by (simp add: checkEmail_def getResponse_message default_null_def)
qed

theorem max_type_guard_witness:
  "truthy (JStr ''three'') \<and> typeof (JStr ''three'') \<noteq> ''number'' \<and>
   checkEmail ''x@y.com'' \<lparr>domains = JArr [JStr ''ok.com''], max_opt = JStr ''three''\<rparr> =
     Inr \<lparr>valid = False, error = JStr ''`max` can only have a value of number.''\<rparr>"
  using max_type_guard [of "JStr ''three''" "''x@y.com''" "JArr [JStr ''ok.com'']"] by simp

text \<open>
  The claim as stated fails for the empty string: \<open>max\<close> is provided and is not a
  number, and the email is validated with the default bound.
\<close>

theorem max_type_guard_counterexample:
  "checkEmail ''a@b.co'' \<lparr>domains = JUndefined, max_opt = JStr ''''\<rparr> =
     Inr \<lparr>valid = True, error = JUndefined\<rparr>"
  by code_simp

section \<open>What a pattern matches\<close>

text \<open>
  The language of a pattern without anchors, in the usual sense, and the proof that
  \<open>run\<close> computes it: from a state with input \<open>s\<close>, the matches of \<open>r\<close> end exactly
  in the states whose input is \<open>s\<close> without a prefix in the language of \<open>r\<close>.
\<close>

definition conc :: "string set \<Rightarrow> string set \<Rightarrow> string set" where
  "conc A B = {a @ b | a b. a \<in> A \<and> b \<in> B}"

fun pow :: "string set \<Rightarrow> nat \<Rightarrow> string set" where
  "pow L 0 = {[]}"
| "pow L (Suc k) = conc L (pow L k)"

definition within :: "nat \<Rightarrow> nat option \<Rightarrow> nat \<Rightarrow> bool" where
  "within lo hi k = (lo \<le> k \<and> (case hi of None \<Rightarrow> True | Some h \<Rightarrow> k \<le> h))"

definition reps :: "string set \<Rightarrow> nat \<Rightarrow> nat option \<Rightarrow> string set" where
  "reps L lo hi = (\<Union>k \<in> {k. within lo hi k}. pow L k)"

fun lang :: "regex \<Rightarrow> string set" where
  "lang Eps = {[]}"
| "lang Bol = {}"
| "lang Eol = {}"
| "lang (Sym cs) = {[c] | c. accepts cs c}"
| "lang (Seq r1 r2) = conc (lang r1) (lang r2)"
| "lang (Alt r1 r2) = lang r1 \<union> lang r2"
| "lang (Rep lo hi r) = reps (lang r) lo hi"

text \<open>No anchor, and the bounds of every quantifier in order (as the parser ensures).\<close>

fun plain :: "regex \<Rightarrow> bool" where
  "plain Eps = True"
| "plain Bol = False"
| "plain Eol = False"
| "plain (Sym cs) = True"
| "plain (Seq r1 r2) = (plain r1 \<and> plain r2)"
| "plain (Alt r1 r2) = (plain r1 \<and> plain r2)"
| "plain (Rep lo hi r) = (plain r \<and> (case hi of None \<Rightarrow> True | Some h \<Rightarrow> lo \<le> h))"

definition post :: "string set \<Rightarrow> state set \<Rightarrow> state set" where
  "post L X = {(b \<and> w = [], s) | b w s. (b, w @ s) \<in> X \<and> w \<in> L}"

lemma postI: "(b, w @ s) \<in> X \<Longrightarrow> w \<in> L \<Longrightarrow> c = (b \<and> w = []) \<Longrightarrow> (c, s) \<in> post L X"
  unfolding post_def by blast

lemma postE:
  assumes "y \<in> post L X"
  obtains b w s where "y = (b \<and> w = [], s)" and "(b, w @ s) \<in> X" and "w \<in> L"
  using assms unfolding post_def by blast

lemma post_empty [simp]: "post L {} = {}"
  by (simp add: post_def)

lemma post_eps [simp]: "post {[]} X = X"
proof (rule set_eqI, rule iffI)
  fix y
  assume "y \<in> post {[]} X"
  then show "y \<in> X" by (elim postE) simp
next
  fix y :: state
  assume y: "y \<in> X"
  obtain b s where "y = (b, s)" by (cases y)
  with y show "y \<in> post {[]} X" by (auto intro: postI [of b "[]"])
qed

lemma post_mono: "X \<subseteq> Y \<Longrightarrow> post L X \<subseteq> post L Y"
  unfolding post_def by blast

lemma post_Un: "post L (X \<union> Y) = post L X \<union> post L Y"
  unfolding post_def by blast

lemma post_lang_Un: "post (A \<union> B) X = post A X \<union> post B X"
  unfolding post_def by blast

lemma post_UN: "post (\<Union>i \<in> I. B i) X = (\<Union>i \<in> I. post (B i) X)"
  unfolding post_def by blast

lemma post_conc: "post (conc A B) X = post B (post A X)"
proof (rule set_eqI, rule iffI)
  fix y
  assume "y \<in> post (conc A B) X"
  then obtain b w s where y: "y = (b \<and> w = [], s)" and x: "(b, w @ s) \<in> X"
    and w: "w \<in> conc A B"
    by (rule postE)
  from w obtain a c where w': "w = a @ c" and a: "a \<in> A" and c: "c \<in> B"
    by (auto simp: conc_def)
  from x w' have "(b, a @ c @ s) \<in> X" by simp
  then have "(b \<and> a = [], c @ s) \<in> post A X" using a by (rule postI) simp
  then have "((b \<and> a = []) \<and> c = [], s) \<in> post B (post A X)" using c by (rule postI) simp
  with y w' show "y \<in> post B (post A X)" by simp
next
  fix y
  assume "y \<in> post B (post A X)"
  then obtain b' c s where y: "y = (b' \<and> c = [], s)" and m: "(b', c @ s) \<in> post A X"
    and c: "c \<in> B"
    by (rule postE)
  from m obtain b a t where e: "(b', c @ s) = (b \<and> a = [], t)" and x: "(b, a @ t) \<in> X"
    and a: "a \<in> A"
    by (rule postE)
  from a c have ac: "a @ c \<in> conc A B" by (auto simp: conc_def)
  from x e have "(b, (a @ c) @ s) \<in> X" by simp
  then have "(b \<and> a @ c = [], s) \<in> post (conc A B) X" using ac by (rule postI) simp
  with y e show "y \<in> post (conc A B) X" by simp
qed

lemma post_pow_Suc: "post (pow L (Suc k)) X = post (pow L k) (post L X)"
  by (simp add: post_conc)

lemma post_reps: "post (reps L lo hi) X = (\<Union>k \<in> {k. within lo hi k}. post (pow L k) X)"
  by (simp add: reps_def post_UN)

lemma post_shorter:
  assumes "y \<in> post L (set frontier)" and "set frontier \<subseteq> S" and "y \<notin> S"
  shows "length (snd y) < maxlen frontier"
proof -
  from assms(1) obtain b w s where y: "y = (b \<and> w = [], s)" and x: "(b, w @ s) \<in> set frontier"
    by (rule postE)
  have "w \<noteq> []"
  proof
    assume "w = []"
    with y x have "y \<in> set frontier" by simp
    with assms(2,3) show False by auto
  qed
  moreover have "length (w @ s) \<le> maxlen frontier"
    using maxlen_bound [OF x] by simp
  ultimately show ?thesis using y by (cases w) auto
qed

lemma closure_cover:
  assumes FS: "F \<subseteq> S" and inv: "post L (S - F) \<subseteq> S" and N: "N = post L F - S"
  shows "post (pow L k) S \<subseteq> S \<union> (\<Union>j \<in> {j. j < k}. post (pow L j) N)"
proof (induction k)
  case 0
  show ?case by simp
next
  case (Suc k)
  have "S = (S - F) \<union> F" using FS by auto
  then have "post L S = post L (S - F) \<union> post L F" by (metis post_Un)
  with inv N have step: "post L S \<subseteq> S \<union> N" by auto
  have "post (pow L (Suc k)) S = post (pow L k) (post L S)" by (rule post_pow_Suc)
  also have "\<dots> \<subseteq> post (pow L k) (S \<union> N)" by (rule post_mono [OF step])
  also have "\<dots> = post (pow L k) S \<union> post (pow L k) N" by (rule post_Un)
  also have "\<dots> \<subseteq> (S \<union> (\<Union>j \<in> {j. j < k}. post (pow L j) N)) \<union> post (pow L k) N"
    using Suc.IH by auto
  also have "\<dots> \<subseteq> S \<union> (\<Union>j \<in> {j. j < Suc k}. post (pow L j) N)"
    by (auto simp: less_Suc_eq)
  finally show ?case .
qed

lemma closure_sets:
  assumes FS: "F \<subseteq> S" and inv: "post L (S - F) \<subseteq> S" and N: "N = post L F - S"
    and hi: "hi \<noteq> Some 0"
  shows "S \<union> N \<union> post (reps L 0 (dec hi)) N = S \<union> post (reps L 0 hi) F"
proof (rule equalityI; rule subsetI)
  fix y
  assume "y \<in> S \<union> N \<union> post (reps L 0 (dec hi)) N"
  then consider "y \<in> S" | "y \<in> N" | "y \<in> post (reps L 0 (dec hi)) N" by auto
  then show "y \<in> S \<union> post (reps L 0 hi) F"
  proof cases
    case 1
    then show ?thesis by simp
  next
    case 2
    then have "y \<in> post (pow L (Suc 0)) F" using N by (simp add: post_conc)
    moreover have "within 0 hi (Suc 0)"
      using hi by (cases hi) (auto simp: within_def)
    ultimately show ?thesis unfolding post_reps by blast
  next
    case 3
    then obtain k where k: "within 0 (dec hi) k" and y: "y \<in> post (pow L k) N"
      unfolding post_reps by blast
    have "N \<subseteq> post L F" using N by auto
    then have "post (pow L k) N \<subseteq> post (pow L k) (post L F)" by (rule post_mono)
    with y have "y \<in> post (pow L (Suc k)) F" by (auto simp: post_conc)
    moreover have "within 0 hi (Suc k)"
      using k hi by (cases hi) (auto simp: within_def)
    ultimately show ?thesis unfolding post_reps by blast
  qed
next
  fix y
  assume "y \<in> S \<union> post (reps L 0 hi) F"
  then consider "y \<in> S" | k where "within 0 hi k" "y \<in> post (pow L k) F"
    unfolding post_reps by blast
  then show "y \<in> S \<union> N \<union> post (reps L 0 (dec hi)) N"
  proof cases
    case 1
    then show ?thesis by simp
  next
    case 2
    have "post (pow L k) F \<subseteq> post (pow L k) S" by (rule post_mono [OF FS])
    with 2 closure_cover [OF FS inv N, of k]
    have "y \<in> S \<union> (\<Union>j \<in> {j. j < k}. post (pow L j) N)" by auto
    then consider "y \<in> S" | j where "j < k" "y \<in> post (pow L j) N" by auto
    then show ?thesis
    proof cases
      case 1
      then show ?thesis by simp
    next
      case 2
      have "within 0 (dec hi) j"
        using \<open>j < k\<close> \<open>within 0 hi k\<close> by (cases hi) (auto simp: within_def)
      with 2 show ?thesis unfolding post_reps by blast
    qed
  qed
qed

lemma closure_correct:
  "(\<forall>F. set (step F) = post L (set F)) \<Longrightarrow> set frontier \<subseteq> set seen \<Longrightarrow>
   post L (set seen - set frontier) \<subseteq> set seen \<Longrightarrow>
   set (closure step hi seen frontier) = set seen \<union> post (reps L 0 hi) (set frontier)"
proof (induction step hi seen frontier rule: closure.induct)
  case (1 step hi seen frontier)
  have step: "set (step F) = post L (set F)" for F using "1.prems"(1) by simp
  note FS = "1.prems"(2) and inv = "1.prems"(3)
  show ?case
  proof (cases "frontier = [] \<or> hi = Some 0")
    case True
    then show ?thesis
    proof
      assume "frontier = []"
      then show ?thesis by simp
    next
      assume h: "hi = Some 0"
      have "reps L 0 (Some 0) = {[]}"
        by (auto simp: reps_def within_def)
      with h FS show ?thesis by auto
    qed
  next
    case False
    define new where "new = filter (\<lambda>y. y \<notin> set seen \<and> length (snd y) < maxlen frontier)
                             (remdups (step frontier))"
    have N: "set new = post L (set frontier) - set seen"
      using post_shorter [OF _ FS] by (auto simp: new_def step)
    have sub: "set new \<subseteq> set (seen @ new)" by simp
    have "set (seen @ new) - set new \<subseteq> set seen" by auto
    then have "post L (set (seen @ new) - set new) \<subseteq> post L (set seen)" by (rule post_mono)
    moreover have "set seen = (set seen - set frontier) \<union> set frontier"
      using FS by auto
    then have "post L (set seen) = post L (set seen - set frontier) \<union> post L (set frontier)"
      by (metis post_Un)
    ultimately have inv': "post L (set (seen @ new) - set new) \<subseteq> set (seen @ new)"
      using inv N by auto
    have "set (closure step (dec hi) (seen @ new) new) =
          set (seen @ new) \<union> post (reps L 0 (dec hi)) (set new)"
      using "1.IH" [OF False new_def "1.prems"(1) sub inv'] .
    moreover have "closure step hi seen frontier = closure step (dec hi) (seen @ new) new"
      using False by (subst closure.simps) (simp add: new_def Let_def)
    moreover have "hi \<noteq> Some 0" using False by simp
    ultimately show ?thesis
      using closure_sets [OF FS inv N] by (simp add: Un_assoc)
  qed
qed

lemma conc_UN: "conc L (\<Union>i \<in> I. B i) = (\<Union>i \<in> I. conc L (B i))"
  unfolding conc_def by blast

lemma reps_Suc:
  assumes "hi \<noteq> Some 0"
  shows "reps L (Suc lo) hi = conc L (reps L lo (dec hi))"
proof -
  have "{k. within (Suc lo) hi k} = Suc ` {k. within lo (dec hi) k}"
  proof (rule set_eqI, rule iffI)
    fix k
    assume "k \<in> {k. within (Suc lo) hi k}"
    then obtain j where "k = Suc j" and "within lo (dec hi) j"
      by (cases k; cases hi) (auto simp: within_def)
    then show "k \<in> Suc ` {k. within lo (dec hi) k}" by simp
  next
    fix k
    assume "k \<in> Suc ` {k. within lo (dec hi) k}"
    then show "k \<in> {k. within (Suc lo) hi k}"
      using assms by (cases hi) (auto simp: within_def)
  qed
  then show ?thesis
    by (simp add: reps_def conc_UN)
qed

lemma repeat_correct:
  "(\<forall>F. set (step F) = post L (set F)) \<Longrightarrow> (case hi of None \<Rightarrow> True | Some h \<Rightarrow> lo \<le> h) \<Longrightarrow>
   set (repeat step lo hi S) = post (reps L lo hi) (set S)"
proof (induction lo arbitrary: hi S)
  case 0
  have "set (closure step hi (remdups S) (remdups S)) =
        set (remdups S) \<union> post (reps L 0 hi) (set (remdups S))"
    by (rule closure_correct [OF "0.prems"(1)]) simp_all
  moreover have "within 0 hi 0" by (cases hi) (auto simp: within_def)
  then have "post (pow L 0) (set S) \<subseteq> post (reps L 0 hi) (set S)"
    unfolding post_reps by blast
  ultimately show ?case by auto
next
  case (Suc lo)
  from Suc.prems(2) have hi: "hi \<noteq> Some 0" by (cases hi) auto
  from Suc.prems(2) have ord: "case dec hi of None \<Rightarrow> True | Some h \<Rightarrow> lo \<le> h"
    by (cases hi) auto
  have "set (repeat step (Suc lo) hi S) = set (repeat step lo (dec hi) (step S))"
    using hi by simp
  also have "\<dots> = post (reps L lo (dec hi)) (set (step S))"
    by (rule Suc.IH [OF Suc.prems(1) ord])
  also have "\<dots> = post (reps L (Suc lo) hi) (set S)"
    using Suc.prems(1) by (simp add: reps_Suc [OF hi] post_conc)
  finally show ?case .
qed

lemma consume_post: "set (concat (map (consume cs) S)) = post {[c] | c. accepts cs c} (set S)"
proof (rule set_eqI, rule iffI)
  fix y
  assume "y \<in> set (concat (map (consume cs) S))"
  then obtain x where x: "x \<in> set S" and y: "y \<in> set (consume cs x)" by auto
  obtain b s where xs: "x = (b, s)" by (cases x)
  from y xs obtain c where s: "s = [c] @ snd y" and c: "accepts cs c" and f: "y = (False, snd y)"
    by (cases s) (auto simp: consume_def split: if_splits)
  from x xs s have "(b, [c] @ snd y) \<in> set S" by simp
  then have "(False, snd y) \<in> post {[c] | c. accepts cs c} (set S)"
    using c by (intro postI [of b "[c]"]) auto
  with f show "y \<in> post {[c] | c. accepts cs c} (set S)" by simp
next
  fix y
  assume "y \<in> post {[c] | c. accepts cs c} (set S)"
  then obtain b w s where y: "y = (b \<and> w = [], s)" and x: "(b, w @ s) \<in> set S"
    and w: "w \<in> {[c] | c. accepts cs c}"
    by (rule postE)
  from w obtain c where wc: "w = [c]" and c: "accepts cs c" by auto
  have "y \<in> set (consume cs (b, w @ s))"
    using y wc c by (simp add: consume_def)
  with x show "y \<in> set (concat (map (consume cs) S))" by auto
qed

lemma run_lang: "plain r \<Longrightarrow> set (run r S) = post (lang r) (set S)"
proof (induction r arbitrary: S)
  case (Sym cs)
  show ?case using consume_post [of cs S] by simp
next
  case (Seq r1 r2)
  then show ?case by (simp add: post_conc)
next
  case (Alt r1 r2)
  then show ?case by (simp add: post_lang_Un)
next
  case (Rep lo hi r)
  then have "\<forall>F. set (run r F) = post (lang r) (set F)" by simp
  then show ?case
    using Rep.prems by (simp add: repeat_correct)
qed simp_all

subsection \<open>Sequences of terms, and the anchors around them\<close>

lemma run_sequence:
  "run (foldr Seq (xs @ ys) Eps) S = run (foldr Seq ys Eps) (run (foldr Seq xs Eps) S)"
  by (induction xs arbitrary: S) simp_all

lemma conc_eps [simp]: "conc A {[]} = A" "conc {[]} A = A"
  by (auto simp: conc_def)

lemma conc_assoc: "conc (conc A B) C = conc A (conc B C)"
proof (rule set_eqI, rule iffI)
  fix w
  assume "w \<in> conc (conc A B) C"
  then obtain a b c where "w = (a @ b) @ c" "a \<in> A" "b \<in> B" "c \<in> C"
    unfolding conc_def by blast
  then show "w \<in> conc A (conc B C)"
    unfolding conc_def by (simp, blast)
next
  fix w
  assume "w \<in> conc A (conc B C)"
  then obtain a b c where "w = a @ (b @ c)" "a \<in> A" "b \<in> B" "c \<in> C"
    unfolding conc_def by blast
  then show "w \<in> conc (conc A B) C"
  proof -
    assume w: "w = a @ b @ c" and m: "a \<in> A" "b \<in> B" "c \<in> C"
    from m have "a @ b \<in> conc A B" unfolding conc_def by blast
    with m have "(a @ b) @ c \<in> conc (conc A B) C" unfolding conc_def by blast
    with w show ?thesis by simp
  qed
qed

lemma lang_sequence:
  "lang (foldr Seq (xs @ ys) Eps) = conc (lang (foldr Seq xs Eps)) (lang (foldr Seq ys Eps))"
  by (induction xs) (simp_all add: conc_assoc)

lemma plain_sequence: "plain (foldr Seq xs Eps) = list_all plain xs"
  by (induction xs) simp_all

lemma run_nothing: "plain r \<Longrightarrow> run r [] = []"
  using run_lang [of r "[]"] by simp

text \<open>
  A pattern \<open>^ ... $\<close> whose terms in between have no anchor: \<open>test\<close> holds exactly for
  the strings of the language of those terms.
\<close>

lemma test_anchored:
  assumes "list_all plain items"
  shows "test (foldr Seq (Bol # items @ [Eol]) Eps) s \<longleftrightarrow> s \<in> lang (foldr Seq items Eps)"
proof -
  define body where "body = foldr Seq items Eps"
  define R where "R = foldr Seq (Bol # items @ [Eol]) Eps"
  have pb: "plain body" using assms by (simp add: body_def plain_sequence)
  have R: "run R S = filter (\<lambda>st. snd st = []) (run body (filter fst S))" for S
    using run_sequence [of items "[Eol]" "filter fst S"] by (simp add: R_def body_def)
  have no: "run R [(False, t)] = []" for t
    by (simp add: R run_nothing [OF pb])
  have sc: "\<not> scan R (False, t)" for t
    by (induction t) (simp_all add: no)
  have "scan R (True, s) \<longleftrightarrow> run R [(True, s)] \<noteq> []"
    by (cases s) (simp_all add: sc)
  also have "\<dots> \<longleftrightarrow> (\<exists>y \<in> set (run body [(True, s)]). snd y = [])"
    by (simp add: R filter_empty_conv)
  also have "\<dots> \<longleftrightarrow> (\<exists>y \<in> post (lang body) {(True, s)}. snd y = [])"
    by (simp add: run_lang [OF pb])
  also have "\<dots> \<longleftrightarrow> s \<in> lang body"
  proof
    assume "\<exists>y \<in> post (lang body) {(True, s)}. snd y = []"
    then obtain y where y: "y \<in> post (lang body) {(True, s)}" and e: "snd y = []" by blast
    from y obtain b w t where "y = (b \<and> w = [], t)" "(b, w @ t) \<in> {(True, s)}" "w \<in> lang body"
      by (rule postE)
    with e show "s \<in> lang body" by auto
  next
    assume "s \<in> lang body"
    then have "(True \<and> s = [], []) \<in> post (lang body) {(True, s)}"
      by (intro postI [of True s]) auto
    then show "\<exists>y \<in> post (lang body) {(True, s)}. snd y = []" by force
  qed
  finally show ?thesis by (simp add: test_def R_def body_def)
qed

section \<open>The patterns of the program\<close>

subsection \<open>Repeated character sets\<close>

lemma pow_sym: "pow {[c] | c. P c} k = {w. length w = k \<and> list_all P w}"
proof (induction k)
  case 0
  show ?case by auto
next
  case (Suc k)
  show ?case
  proof (rule set_eqI, rule iffI)
    fix w
    assume "w \<in> pow {[c] | c. P c} (Suc k)"
    then obtain c v where "w = [c] @ v" "P c" "v \<in> pow {[c] | c. P c} k"
      by (auto simp: conc_def)
    with Suc show "w \<in> {w. length w = Suc k \<and> list_all P w}" by simp
  next
    fix w
    assume "w \<in> {w. length w = Suc k \<and> list_all P w}"
    then obtain c v where w: "w = c # v" and "P c" "length v = k" "list_all P v"
      by (cases w) auto
    with Suc have "[c] \<in> {[c] | c. P c}" "v \<in> pow {[c] | c. P c} k" by auto
    then have "[c] @ v \<in> conc {[c] | c. P c} (pow {[c] | c. P c} k)"
      unfolding conc_def by blast
    with w show "w \<in> pow {[c] | c. P c} (Suc k)" by simp
  qed
qed

lemma reps_sym: "reps {[c] | c. P c} lo None = {w. lo \<le> length w \<and> list_all P w}"
  by (auto simp: reps_def within_def pow_sym)

lemma lang_literals: "lang (foldr Seq (map (\<lambda>c. Sym (Lit c)) w) Eps) = {w}"
  by (induction w) (auto simp: conc_def)

subsection \<open>The domain format\<close>

definition word_plus :: regex where
  "word_plus = Rep 1 None (Sym Word)"

definition alpha2 :: regex where
  "alpha2 = Rep 2 None (Sym (Class False [(CHR ''a'', CHR ''z''), (CHR ''A'', CHR ''Z'')]))"

lemma DOMAIN_REGEX_terms:
  "DOMAIN_REGEX = foldr Seq (Bol # [word_plus, Sym (Lit (CHR ''.'')), alpha2] @ [Eol]) Eps"
  by code_simp

lemma accepts_alpha:
  "accepts (Class False [(CHR ''a'', CHR ''z''), (CHR ''A'', CHR ''Z'')]) c = is_alpha c"
  by (auto simp: is_alpha_def code_def)

text \<open>
  The format of a domain: one label of word characters, one dot, and two or more
  letters.
\<close>

definition domain_format :: "string \<Rightarrow> string \<Rightarrow> string \<Rightarrow> bool" where
  "domain_format d label tld =
     (d = label @ ''.'' @ tld \<and> label \<noteq> [] \<and> list_all is_word label
      \<and> 2 \<le> length tld \<and> list_all is_alpha tld)"

lemma test_DOMAIN_REGEX: "test DOMAIN_REGEX d \<longleftrightarrow> (\<exists>label tld. domain_format d label tld)"
proof -
  have "test DOMAIN_REGEX d \<longleftrightarrow>
        d \<in> lang (foldr Seq [word_plus, Sym (Lit (CHR ''.'')), alpha2] Eps)"
    unfolding DOMAIN_REGEX_terms
    by (rule test_anchored) (simp add: word_plus_def alpha2_def)
  also have "\<dots> \<longleftrightarrow> (\<exists>label tld. domain_format d label tld)"
  proof -
    have w: "lang word_plus = {w. 1 \<le> length w \<and> list_all is_word w}"
      using reps_sym [of is_word 1] by (simp add: word_plus_def)
    have "lang alpha2 = reps {[c] | c. is_alpha c} 2 None"
      by (simp only: alpha2_def lang.simps accepts_alpha)
    then have a: "lang alpha2 = {w. 2 \<le> length w \<and> list_all is_alpha w}"
      by (simp only: reps_sym)
    show ?thesis
      unfolding domain_format_def
      by (simp add: w a conc_def) (metis One_nat_def Suc_le_eq length_greater_0_conv)
  qed
  finally show ?thesis .
qed

subsection \<open>Splitting a well-formed domain\<close>

lemma split_not_empty: "split sep s \<noteq> []"
  by (induction s) (auto split: list.splits)

lemma split_none: "sep \<notin> set s \<Longrightarrow> split sep s = [s]"
  by (induction s) auto

lemma split_first: "sep \<notin> set a \<Longrightarrow> split sep (a @ sep # b) = a # split sep b"
  by (induction a) auto

lemma word_no_dot: "list_all is_word w \<Longrightarrow> CHR ''.'' \<notin> set w"
  by (auto simp: list_all_iff is_word_def is_alpha_def is_digit_def code_def)

lemma alpha_word: "is_alpha c \<Longrightarrow> is_word c"
  by (simp add: is_word_def)

lemma alpha_words: "list_all is_alpha w \<Longrightarrow> list_all is_word w"
  by (auto simp: list_all_iff alpha_word)

lemma split_domain:
  assumes "domain_format d label tld"
  shows "destructure2 (split (CHR ''.'') d) = (JStr label, JStr tld)"
proof -
  from assms have d: "d = label @ CHR ''.'' # tld" and l: "CHR ''.'' \<notin> set label"
    and t: "CHR ''.'' \<notin> set tld"
    by (auto simp: domain_format_def dest: word_no_dot alpha_words)
  show ?thesis
    by (simp add: d split_first [OF l] split_none [OF t])
qed

subsection \<open>Parsing a pattern that holds a domain\<close>

lemma word_not_special:
  assumes "is_word c"
  shows "c \<notin> set ''^$.|)(*+?{['' \<and> c \<noteq> CHR 0x5C"
  using assms by (auto simp: is_word_def is_alpha_def is_digit_def code_def)

lemma tokenise_word_char: "is_word c \<Longrightarrow> tokenise (c # cs) = emit (TSym (Lit c)) (tokenise cs)"
  using word_not_special [of c] by simp

lemma tokenise_word:
  "list_all is_word w \<Longrightarrow>
   tokenise (w @ rest) =
     (case tokenise rest of Inl e \<Rightarrow> Inl e | Inr ts \<Rightarrow> Inr (map (\<lambda>c. TSym (Lit c)) w @ ts))"
proof (induction w)
  case Nil
  show ?case by (simp split: sum.splits)
next
  case (Cons c w)
  then have "tokenise ((c # w) @ rest) = emit (TSym (Lit c)) (tokenise (w @ rest))"
    using tokenise_word_char [of c "w @ rest"] by simp
  with Cons show ?case by (simp add: emit_def split: sum.splits)
qed

lemma parse_literals:
  "parse f stack (map (\<lambda>c. TSym (Lit c)) w @ ts) =
   parse (fst f, rev (map (\<lambda>c. (Sym (Lit c), True)) w) @ snd f) stack ts"
  by (induction w arbitrary: f) simp_all

definition sep_group :: regex where
  "sep_group =
     Rep 0 None
       (Seq (Rep 0 (Some 1) (Sym (Class False [(CHR ''.'', CHR ''.''), (CHR ''-'', CHR ''-'')])))
         (Seq word_plus Eps))"

text \<open>The terms of \<open>\w+([.-]?\w+)*\<close>, the grammar of a local part.\<close>

definition local_terms :: "regex list" where
  "local_terms = [word_plus, sep_group]"

definition local_part :: "string set" where
  "local_part = lang (foldr Seq local_terms Eps)"

lemma plain_local_terms: "list_all plain local_terms"
  by (simp add: local_terms_def word_plus_def sep_group_def)

lemma local_part_pattern:
  "test (regex_literal (pattern ''^%w+([.-]?%w+)*$'')) s \<longleftrightarrow> s \<in> local_part"
proof -
  have "regex_literal (pattern ''^%w+([.-]?%w+)*$'') = foldr Seq (Bol # local_terms @ [Eol]) Eps"
    by code_simp
  then show ?thesis
    using test_anchored [OF plain_local_terms] by (simp add: local_part_def)
qed

lemma tokenise_domain_pattern:
  assumes "list_all is_word label" and "list_all is_word tld"
  shows "tokenise (pattern ''^%w+([.-]?%w+)*@'' @ label @ pattern ''%.'' @ tld @ ''$'') =
         Inr ([TBol, TSym Word, TQuant 1 None, TOpen,
               TSym (Class False [(CHR ''.'', CHR ''.''), (CHR ''-'', CHR ''-'')]),
               TQuant 0 (Some 1), TSym Word, TQuant 1 None, TClose, TQuant 0 None,
               TSym (Lit (CHR ''@''))]
              @ map (\<lambda>c. TSym (Lit c)) label @ [TSym (Lit (CHR ''.''))]
              @ map (\<lambda>c. TSym (Lit c)) tld @ [TEol])"
proof -
  have t3: "tokenise (tld @ ''$'') = Inr (map (\<lambda>c. TSym (Lit c)) tld @ [TEol])"
    using assms(2) by (simp add: tokenise_word emit_def)
  have "tokenise (CHR 0x5C # CHR ''.'' # tld @ ''$'') =
        Inr (TSym (Lit (CHR ''.'')) # map (\<lambda>c. TSym (Lit c)) tld @ [TEol])"
    by (simp add: t3 emit_def is_syntax_char_def)
  then have t2: "tokenise (label @ CHR 0x5C # CHR ''.'' # tld @ ''$'') =
        Inr (map (\<lambda>c. TSym (Lit c)) label @ TSym (Lit (CHR ''.'')) #
             map (\<lambda>c. TSym (Lit c)) tld @ [TEol])"
    using assms(1) by (simp add: tokenise_word)
  show ?thesis
    by (simp add: pattern_def t2 emit_def add_range_def)
qed

lemma EMAIL_WITH_DOMAIN_REGEX_terms:
  assumes "list_all is_word label" and "list_all is_word tld"
  shows "EMAIL_WITH_DOMAIN_REGEX (JStr label) (JStr tld) =
         Inr (foldr Seq (Bol # (local_terms @ map (\<lambda>c. Sym (Lit c)) (''@'' @ label @ ''.'' @ tld))
                         @ [Eol]) Eps)"
proof -
  have "parse ([], []) []
          ([TBol, TSym Word, TQuant 1 None, TOpen,
            TSym (Class False [(CHR ''.'', CHR ''.''), (CHR ''-'', CHR ''-'')]),
            TQuant 0 (Some 1), TSym Word, TQuant 1 None, TClose, TQuant 0 None,
            TSym (Lit (CHR ''@''))]
           @ map (\<lambda>c. TSym (Lit c)) label @ [TSym (Lit (CHR ''.''))]
           @ map (\<lambda>c. TSym (Lit c)) tld @ [TEol]) =
        Inr (foldr Seq (Bol # (local_terms @ map (\<lambda>c. Sym (Lit c)) (''@'' @ label @ ''.'' @ tld))
                        @ [Eol]) Eps)"
    by (simp add: parse_literals close_frame_def sequence_def local_terms_def word_plus_def
        sep_group_def rev_map comp_def)
  then show ?thesis
    using tokenise_domain_pattern [OF assms]
    by (simp add: EMAIL_WITH_DOMAIN_REGEX_def RegExp_new_def)
qed

text \<open>
  The pattern of a domain accepts an email exactly when the email is a local part, an
  \<open>@\<close> and that very domain.
\<close>

definition exact_match :: "string \<Rightarrow> string \<Rightarrow> bool" where
  "exact_match email d = (\<exists>local. email = local @ ''@'' @ d \<and> local \<in> local_part)"

lemma test_domain_pattern:
  "test (foldr Seq (Bol # (local_terms @ map (\<lambda>c. Sym (Lit c)) (''@'' @ d)) @ [Eol]) Eps) email
   \<longleftrightarrow> exact_match email d"
proof -
  have "list_all plain (local_terms @ map (\<lambda>c. Sym (Lit c)) (''@'' @ d))"
    using plain_local_terms by (auto simp: list_all_iff)
  then have "test (foldr Seq (Bol # (local_terms @ map (\<lambda>c. Sym (Lit c)) (''@'' @ d)) @ [Eol]) Eps)
               email
             \<longleftrightarrow> email \<in> lang (foldr Seq (local_terms @ map (\<lambda>c. Sym (Lit c)) (''@'' @ d)) Eps)"
    by (rule test_anchored)
  also have "\<dots> \<longleftrightarrow> email \<in> conc local_part {''@'' @ d}"
    using lang_literals [of "''@'' @ d"] by (simp only: lang_sequence local_part_def)
  also have "\<dots> \<longleftrightarrow> exact_match email d"
    by (auto simp: conc_def exact_match_def)
  finally show ?thesis .
qed

lemma domain_regex_matches:
  assumes "domain_format d label tld"
  shows "\<exists>re. EMAIL_WITH_DOMAIN_REGEX (JStr label) (JStr tld) = Inr re
              \<and> (\<forall>email. test re email \<longleftrightarrow> exact_match email d)"
proof -
  from assms have l: "list_all is_word label" and t: "list_all is_word tld"
    and d: "d = label @ ''.'' @ tld"
    by (auto simp: domain_format_def dest: alpha_words)
  show ?thesis
    using EMAIL_WITH_DOMAIN_REGEX_terms [OF l t] test_domain_pattern [of d]
    by (simp add: d)
qed

section \<open>Domain-restricted mode\<close>



lemma local_part_test: "test (regex_literal (pattern ''^%w+([.-]?%w+)*$'')) ''test''"
  by code_simp




subsection \<open>Several domains\<close>

lemma Array_join_strings: "Array_join sep (map JStr xs) = join sep xs"
  by (simp add: Array_join_def comp_def)

lemma validateDomains_strings:
  "validateDomains (map JStr xs) =
     (if filter (\<lambda>d. \<not> test DOMAIN_REGEX d) xs = []
      then \<lparr>valid = True, error = JUndefined\<rparr>
      else \<lparr>valid = False,
            error = JStr (''['' @ join '', '' (filter (\<lambda>d. \<not> test DOMAIN_REGEX d) xs)
                          @ ''] are not valid domains.'')\<rparr>)"
proof -
  have "filter (\<lambda>domain. \<not> test DOMAIN_REGEX (ToString domain)) (map JStr xs) =
        map JStr (filter (\<lambda>d. \<not> test DOMAIN_REGEX d) xs)"
    by (simp add: filter_map comp_def)
  then show ?thesis
    by (simp add: validateDomains_def Let_def Array_join_strings getResponse_True
        getResponse_message)
qed

lemma checkEmail_multi:
  assumes "2 \<le> length xs"
  shows "checkEmail email \<lparr>domains = JArr (map JStr xs), max_opt = JUndefined\<rparr> =
     (let domainResults = validateDomains (map JStr xs) in
      if truthy (error domainResults)
      then Inr (getResponse False (JStr email) (error domainResults))
      else (case match_domains email (map JStr xs) of
              Inl e \<Rightarrow> Inl e
            | Inr isValid \<Rightarrow> Inr (getResponse isValid (JStr email) JUndefined)))"
proof -
  have "list_all (\<lambda>domain. typeof domain = ''string'') (map JStr xs)"
    by (simp add: list_all_iff)
  moreover have "xs \<noteq> []" "length xs \<noteq> 1" using assms by auto
  ultimately show ?thesis
    by (simp add: checkEmail_def default_null_def Let_def)
qed

lemma join_concat: "join sep (x # xs) = x @ concat (map (\<lambda>d. sep @ d) xs)"
  by (induction xs arbitrary: x) simp_all

text \<open>
  Claim C7: when \<open>domains\<close> is a list of two or more strings and \<open>max\<close> is not
  supplied, and some entry fails the format check, the result is the error that lists
  every offending entry, in the order of the list: an opening square bracket, the first
  offender \<open>b\<close>, each later offender of \<open>bs\<close> preceded by a comma and a space, a
  closing square bracket and \<open>are not valid domains.\<close>, whatever the email is. The
  offenders are the entries that are not a label of word characters, a dot and two or
  more letters. So \<open>checkEmail('x@y.com', { domains: ['bad_domain!', 'ok.com'] })\<close>
  gives \<open>[bad_domain!] are not valid domains.\<close>
\<close>

theorem invalid_domains_reported:
  assumes "2 \<le> length xs" and "filter (\<lambda>d. \<not> test DOMAIN_REGEX d) xs = b # bs"
  shows "checkEmail email \<lparr>domains = JArr (map JStr xs), max_opt = JUndefined\<rparr> =
           Inr \<lparr>valid = False,
                error = JStr (''['' @ b @ concat (map (\<lambda>d. '', '' @ d) bs)
                              @ ''] are not valid domains.'')\<rparr>
       \<and> b # bs = filter (\<lambda>d. \<nexists>label tld. domain_format d label tld) xs"
proof
  show "checkEmail email \<lparr>domains = JArr (map JStr xs), max_opt = JUndefined\<rparr> =
      Inr \<lparr>valid = False,
           error = JStr (''['' @ b @ concat (map (\<lambda>d. '', '' @ d) bs)
                         @ ''] are not valid domains.'')\<rparr>"
    by (simp add: checkEmail_multi [OF assms(1)] validateDomains_strings assms(2)
        getResponse_message join_concat)
  show "b # bs = filter (\<lambda>d. \<nexists>label tld. domain_format d label tld) xs"
    using assms(2) by (simp add: test_DOMAIN_REGEX)
qed

lemma DOMAIN_REGEX_examples:
  "\<not> test DOMAIN_REGEX ''bad_domain!''" "test DOMAIN_REGEX ''ok.com''"
  "\<not> test DOMAIN_REGEX ''a.b.com''" "\<not> test DOMAIN_REGEX ''x.y''"
  by code_simp+

text \<open>
  The example of the specification, with one offender, and a list with three offenders
  around a well-formed domain.
\<close>

theorem invalid_domains_reported_witness:
  "checkEmail ''x@y.com''
     \<lparr>domains = JArr [JStr ''bad_domain!'', JStr ''ok.com''], max_opt = JUndefined\<rparr> =
     Inr \<lparr>valid = False, error = JStr ''[bad_domain!] are not valid domains.''\<rparr>
   \<and> checkEmail ''x@ok.com''
     \<lparr>domains = JArr [JStr ''bad_domain!'', JStr ''ok.com'', JStr ''a.b.com'', JStr ''x.y''],
      max_opt = JUndefined\<rparr> =
     Inr \<lparr>valid = False,
          error = JStr ''[bad_domain!, a.b.com, x.y] are not valid domains.''\<rparr>"
  using invalid_domains_reported
      [of "[''bad_domain!'', ''ok.com'']" "''bad_domain!''" "[]" "''x@y.com''"]
    invalid_domains_reported
      [of "[''bad_domain!'', ''ok.com'', ''a.b.com'', ''x.y'']" "''bad_domain!''"
          "[''a.b.com'', ''x.y'']" "''x@ok.com''"]
  by (simp add: DOMAIN_REGEX_examples)

lemma match_domains_valid:
  "\<forall>d \<in> set xs. test DOMAIN_REGEX d \<Longrightarrow>
   match_domains email (map JStr xs) = Inr (\<exists>d \<in> set xs. exact_match email d)"
proof (induction xs)
  case Nil
  show ?case by simp
next
  case (Cons d xs)
  then obtain label tld where f: "domain_format d label tld"
    unfolding test_DOMAIN_REGEX by auto
  from domain_regex_matches [OF f] obtain re
    where re: "EMAIL_WITH_DOMAIN_REGEX (JStr label) (JStr tld) = Inr re"
      and m: "\<And>e. test re e \<longleftrightarrow> exact_match e d"
    by blast
  show ?case
    using Cons by (simp add: split_domain [OF f] re m)
qed

lemma match_domains_first:
  assumes "\<forall>x \<in> set pre. test DOMAIN_REGEX x" and "test DOMAIN_REGEX d"
    and "exact_match email d"
  shows "match_domains email (map JStr pre @ JStr d # rest) = Inr True"
  using assms(1)
proof (induction pre)
  case Nil
  from assms(2) obtain label tld where f: "domain_format d label tld"
    unfolding test_DOMAIN_REGEX by auto
  from domain_regex_matches [OF f] obtain re
    where re: "EMAIL_WITH_DOMAIN_REGEX (JStr label) (JStr tld) = Inr re"
      and m: "\<And>e. test re e \<longleftrightarrow> exact_match e d"
    by blast
  show ?case
    using assms(3) by (simp add: split_domain [OF f] re m)
next
  case (Cons x pre)
  then obtain label tld where f: "domain_format x label tld"
    unfolding test_DOMAIN_REGEX by auto
  from domain_regex_matches [OF f] obtain re
    where re: "EMAIL_WITH_DOMAIN_REGEX (JStr label) (JStr tld) = Inr re"
    by blast
  show ?case
    using Cons by (simp add: split_domain [OF f] re)
qed

text \<open>
  Claim C8: when \<open>domains\<close> is a list of two or more strings that all pass the format
  check and \<open>max\<close> is not supplied, the email is valid exactly when it matches the
  exact pattern of some domain of the list (a local part, \<open>@\<close> and that domain), and
  otherwise the result is the generic \<open><email> is not a valid email.\<close>; the loop goes
  through the list in order and stops at the first match, whatever comes after it.
\<close>

theorem multi_domain_match:
  assumes "2 \<le> length xs" and "\<forall>d \<in> set xs. test DOMAIN_REGEX d"
  shows "checkEmail email \<lparr>domains = JArr (map JStr xs), max_opt = JUndefined\<rparr> =
           Inr (if \<exists>d \<in> set xs. exact_match email d
                then \<lparr>valid = True, error = JUndefined\<rparr>
                else \<lparr>valid = False, error = JStr (email @ '' is not a valid email.'')\<rparr>)
       \<and> (\<forall>d \<in> set xs. \<exists>label tld re.
             domain_format d label tld
           \<and> EMAIL_WITH_DOMAIN_REGEX (JStr label) (JStr tld) = Inr re
           \<and> (test re email \<longleftrightarrow> exact_match email d))
       \<and> (\<forall>pre d rest.
             (\<forall>x \<in> set pre. test DOMAIN_REGEX x) \<and> test DOMAIN_REGEX d \<and> exact_match email d
             \<longrightarrow> match_domains email (map JStr pre @ JStr d # rest) = Inr True)"
proof (intro conjI)
  have none: "filter (\<lambda>d. \<not> test DOMAIN_REGEX d) xs = []"
    using assms(2) by (simp add: filter_empty_conv)
  show "checkEmail email \<lparr>domains = JArr (map JStr xs), max_opt = JUndefined\<rparr> =
           Inr (if \<exists>d \<in> set xs. exact_match email d
                then \<lparr>valid = True, error = JUndefined\<rparr>
                else \<lparr>valid = False, error = JStr (email @ '' is not a valid email.'')\<rparr>)"
    by (simp add: checkEmail_multi [OF assms(1)] validateDomains_strings none
        match_domains_valid [OF assms(2)] getResponse_True getResponse_default default_null_def)
next
  show "\<forall>d \<in> set xs. \<exists>label tld re.
             domain_format d label tld
           \<and> EMAIL_WITH_DOMAIN_REGEX (JStr label) (JStr tld) = Inr re
           \<and> (test re email \<longleftrightarrow> exact_match email d)"
  proof
    fix d
    assume "d \<in> set xs"
    with assms(2) obtain label tld where f: "domain_format d label tld"
      unfolding test_DOMAIN_REGEX by auto
    with domain_regex_matches [OF f]
    show "\<exists>label tld re. domain_format d label tld
           \<and> EMAIL_WITH_DOMAIN_REGEX (JStr label) (JStr tld) = Inr re
           \<and> (test re email \<longleftrightarrow> exact_match email d)"
      by blast
  qed
next
  show "\<forall>pre d rest.
             (\<forall>x \<in> set pre. test DOMAIN_REGEX x) \<and> test DOMAIN_REGEX d \<and> exact_match email d
             \<longrightarrow> match_domains email (map JStr pre @ JStr d # rest) = Inr True"
    using match_domains_first by blast
qed

lemma three_domains_valid:
  "\<forall>d \<in> set [''sample.com'', ''example.com'', ''test.com'']. test DOMAIN_REGEX d"
  by code_simp

theorem multi_domain_match_witness:
  "checkEmail ''test@example.com''
     \<lparr>domains = JArr [JStr ''sample.com'', JStr ''example.com'', JStr ''test.com''],
      max_opt = JUndefined\<rparr> =
     Inr \<lparr>valid = True, error = JUndefined\<rparr>"
proof -
  have "exact_match ''test@example.com'' ''example.com''"
    unfolding exact_match_def
    using local_part_test by (intro exI [of _ "''test''"]) (simp add: local_part_pattern)
  then have "\<exists>d \<in> set [''sample.com'', ''example.com'', ''test.com''].
      exact_match ''test@example.com'' d"
    by simp
  then show ?thesis
    using multi_domain_match [of "[''sample.com'', ''example.com'', ''test.com'']"
        "''test@example.com''"] three_domains_valid
    by simp
qed

section \<open>Unrestricted mode\<close>

text \<open>The text of the standard pattern, with the bound \<open>L\<close> of the TLD length in it.\<close>

definition standard_source :: "string \<Rightarrow> string" where
  "standard_source L =
     pattern ''^%w+([.-]?%w+)*@%w+([.-]?%w+)*(%.%w{2,'' @ L @ pattern ''})+$''"

lemma checkEmail_unrestricted:
  assumes "\<not> truthy ds \<or> ds = JArr []" and "\<not> truthy mx \<or> typeof mx = ''number''"
  shows "checkEmail email \<lparr>domains = ds, max_opt = mx\<rparr> =
     (case RegExp_new (standard_source (ToString (if truthy mx then mx else three))) of
        Inl e \<Rightarrow> Inl e
      | Inr standardPattern \<Rightarrow>
          Inr (getResponse (test standardPattern email) (JStr email) JUndefined))"
proof -
  have "truthy (default_null mx) = truthy mx"
    by (cases mx) (simp_all add: default_null_def)
  moreover have "truthy mx \<Longrightarrow> default_null mx = mx"
    by (cases mx) (simp_all add: default_null_def)
  ultimately show ?thesis
    using assms by (auto simp: checkEmail_def standard_source_def Let_def)
qed

definition address_terms :: "regex list" where
  "address_terms = local_terms @ [Sym (Lit (CHR ''@''))] @ local_terms"

definition tld_2_3 :: regex where
  "tld_2_3 = Rep 2 (Some 3) (Sym Word)"

lemma standard_pattern_terms:
  "RegExp_new (standard_source ''3'') =
     Inr (foldr Seq (Bol # (address_terms
            @ [Rep 1 None (Seq (Sym (Lit (CHR ''.''))) (Seq tld_2_3 Eps))]) @ [Eol]) Eps)"
  by code_simp

lemma one_extension_terms:
  "regex_literal (pattern ''^%w+([.-]?%w+)*@%w+([.-]?%w+)*%.%w{2,3}$'') =
     foldr Seq (Bol # (address_terms @ [Sym (Lit (CHR ''.'')), tld_2_3]) @ [Eol]) Eps"
  by code_simp

lemma plain_address_terms: "list_all plain address_terms"
  using plain_local_terms by (simp add: address_terms_def)

lemma once_in_reps: "X \<subseteq> reps X 1 None"
proof
  fix w
  assume "w \<in> X"
  then have "w \<in> pow X 1" by simp
  moreover have "within 1 None 1" by (simp add: within_def)
  ultimately show "w \<in> reps X 1 None" unfolding reps_def by blast
qed

lemma conc_mono: "B \<subseteq> C \<Longrightarrow> conc A B \<subseteq> conc A C"
  unfolding conc_def by blast

lemma one_extension_included:
  assumes "test (regex_literal (pattern ''^%w+([.-]?%w+)*@%w+([.-]?%w+)*%.%w{2,3}$'')) email"
  shows "\<exists>re. RegExp_new (standard_source ''3'') = Inr re \<and> test re email"
proof -
  let ?one = "[Sym (Lit (CHR ''.'')), tld_2_3]"
  let ?many = "[Rep 1 None (Seq (Sym (Lit (CHR ''.''))) (Seq tld_2_3 Eps))]"
  have p1: "list_all plain (address_terms @ ?one)"
    using plain_address_terms by (simp add: tld_2_3_def)
  have p2: "list_all plain (address_terms @ ?many)"
    using plain_address_terms by (simp add: tld_2_3_def)
  have "lang (foldr Seq ?one Eps) \<subseteq> lang (foldr Seq ?many Eps)"
    using once_in_reps [of "lang (foldr Seq ?one Eps)"] by simp
  then have "lang (foldr Seq (address_terms @ ?one) Eps)
             \<subseteq> lang (foldr Seq (address_terms @ ?many) Eps)"
    unfolding lang_sequence by (rule conc_mono)
  moreover have "email \<in> lang (foldr Seq (address_terms @ ?one) Eps)"
    using assms test_anchored [OF p1] by (simp only: one_extension_terms)
  ultimately have "email \<in> lang (foldr Seq (address_terms @ ?many) Eps)" by blast
  then have "test (foldr Seq (Bol # (address_terms @ ?many) @ [Eol]) Eps) email"
    using test_anchored [OF p2] by simp
  then show ?thesis
    by (simp only: standard_pattern_terms) simp
qed

text \<open>
  Claim C5: when \<open>domains\<close> is absent or an empty list, \<open>checkEmail\<close> tests the email
  against \<open>^\w+([.-]?\w+)*@\w+([.-]?\w+)*(\.\w{2,L})+$\<close>, \<open>L\<close> being the text of
  \<open>max\<close> when \<open>max\<close> is a truthy number and \<open>3\<close> when it is absent or falsy. So every
  string that matches \<open>^\w+([.-]?\w+)*@\w+([.-]?\w+)*\.\w{2,3}$\<close> is valid with no
  options; \<open>test@example.info\<close> is valid with \<open>max = 4\<close> and not valid without
  \<open>max\<close>.
\<close>

theorem unrestricted_mode:
  assumes "ds = JUndefined \<or> ds = JArr []" and "\<not> truthy mx \<or> typeof mx = ''number''"
  shows "checkEmail email \<lparr>domains = ds, max_opt = mx\<rparr> =
           (case RegExp_new (standard_source (if truthy mx then ToString mx else ''3'')) of
              Inl e \<Rightarrow> Inl e
            | Inr standardPattern \<Rightarrow>
                Inr (getResponse (test standardPattern email) (JStr email) JUndefined))
       \<and> (test (regex_literal (pattern ''^%w+([.-]?%w+)*@%w+([.-]?%w+)*%.%w{2,3}$'')) email
            \<longrightarrow> checkEmail email \<lparr>domains = JUndefined, max_opt = JUndefined\<rparr> =
                  Inr \<lparr>valid = True, error = JUndefined\<rparr>)
       \<and> checkEmail ''test@example.info''
           \<lparr>domains = JUndefined, max_opt = JNum (Finite False 4 1)\<rparr> =
           Inr \<lparr>valid = True, error = JUndefined\<rparr>
       \<and> checkEmail ''test@example.info'' \<lparr>domains = JUndefined, max_opt = JUndefined\<rparr> =
           Inr \<lparr>valid = False, error = JStr ''test@example.info is not a valid email.''\<rparr>"
proof (intro conjI impI)
  have "ToString three = ''3''" by code_simp
  moreover have "\<not> truthy ds \<or> ds = JArr []" using assms(1) by auto
  ultimately show "checkEmail email \<lparr>domains = ds, max_opt = mx\<rparr> =
      (case RegExp_new (standard_source (if truthy mx then ToString mx else ''3'')) of
         Inl e \<Rightarrow> Inl e
       | Inr standardPattern \<Rightarrow>
           Inr (getResponse (test standardPattern email) (JStr email) JUndefined))"
    using checkEmail_unrestricted [OF _ assms(2), of ds email] by (cases "truthy mx") simp_all
next
  assume "test (regex_literal (pattern ''^%w+([.-]?%w+)*@%w+([.-]?%w+)*%.%w{2,3}$'')) email"
  from one_extension_included [OF this] obtain re
    where re: "RegExp_new (standard_source ''3'') = Inr re" and t: "test re email"
    by blast
  have "ToString three = ''3''" by code_simp
  then show "checkEmail email \<lparr>domains = JUndefined, max_opt = JUndefined\<rparr> =
      Inr \<lparr>valid = True, error = JUndefined\<rparr>"
    using checkEmail_unrestricted [of JUndefined JUndefined email] re t
    by (simp add: getResponse_True)
next
  show "checkEmail ''test@example.info''
      \<lparr>domains = JUndefined, max_opt = JNum (Finite False 4 1)\<rparr> =
      Inr \<lparr>valid = True, error = JUndefined\<rparr>"
    by code_simp
next
  show "checkEmail ''test@example.info'' \<lparr>domains = JUndefined, max_opt = JUndefined\<rparr> =
      Inr \<lparr>valid = False, error = JStr ''test@example.info is not a valid email.''\<rparr>"
    by code_simp
qed

lemma one_extension_example:
  "test (regex_literal (pattern ''^%w+([.-]?%w+)*@%w+([.-]?%w+)*%.%w{2,3}$''))
     ''test@example.com''"
  by code_simp

theorem unrestricted_mode_witness:
  "test (regex_literal (pattern ''^%w+([.-]?%w+)*@%w+([.-]?%w+)*%.%w{2,3}$''))
     ''test@example.com''
   \<and> checkEmail ''test@example.com'' \<lparr>domains = JUndefined, max_opt = JUndefined\<rparr> =
       Inr \<lparr>valid = True, error = JUndefined\<rparr>"
proof -
  have "\<not> truthy JUndefined \<or> typeof JUndefined = ''number''" by simp
  with unrestricted_mode [of JUndefined JUndefined "''test@example.com''"]
  have "test (regex_literal (pattern ''^%w+([.-]?%w+)*@%w+([.-]?%w+)*%.%w{2,3}$''))
          ''test@example.com''
        \<longrightarrow> checkEmail ''test@example.com'' \<lparr>domains = JUndefined, max_opt = JUndefined\<rparr> =
              Inr \<lparr>valid = True, error = JUndefined\<rparr>"
    by blast
  with one_extension_example show ?thesis by blast
qed

section \<open>The shape of every result\<close>

definition well_formed :: "ValidationResult \<Rightarrow> bool" where
  "well_formed r =
     ((valid r \<longrightarrow> error r = JUndefined)
      \<and> (\<not> valid r \<longrightarrow> (\<exists>m. error r = JStr m \<and> m \<noteq> [])))"

lemma getResponse_well_formed:
  assumes "m = JUndefined \<or> m = JNull \<or> (\<exists>s. m = JStr s)"
  shows "well_formed (getResponse b e m)"
proof (cases b)
  case True
  then show ?thesis by (simp add: well_formed_def getResponse_True)
next
  case False
  from assms consider "m = JUndefined" | "m = JNull" | "m = JStr []"
    | s where "m = JStr s" "s \<noteq> []"
    by blast
  then show ?thesis
  proof cases
    case 1
    with False show ?thesis by (simp add: getResponse_default well_formed_def)
  next
    case 2
    with False show ?thesis by (simp add: getResponse_default well_formed_def)
  next
    case 3
    with False show ?thesis by (simp add: getResponse_default well_formed_def)
  next
    case 4
    with False show ?thesis by (simp add: getResponse_message well_formed_def)
  qed
qed

lemma validateDomains_well_formed: "well_formed (validateDomains ds)"
  unfolding validateDomains_def Let_def
  by (rule getResponse_well_formed) simp

lemma truthy_error_string:
  "well_formed r \<Longrightarrow> truthy (error r) \<Longrightarrow> \<exists>s. error r = JStr s"
  by (cases "valid r") (auto simp: well_formed_def)

lemma tested_well_formed:
  assumes "(case x of Inl e \<Rightarrow> Inl e
            | Inr re \<Rightarrow> Inr (getResponse (test re email) (JStr email) JUndefined)) = Inr r"
  shows "well_formed r"
  using assms by (cases x) (auto intro: getResponse_well_formed)

text \<open>The paths of \<open>checkEmail\<close>, each with the conditions under which it is taken.\<close>

lemma checkEmail_cases:
  fixes email :: string and options :: CheckEmailOptions
  defines "ds \<equiv> domains options" and "mx \<equiv> default_null (max_opt options)"
  defines "emailDomain \<equiv> (if typeof ds = ''string'' then ds else first_element ds)"
  obtains
    (type_error) "truthy mx"
      "checkEmail email options =
         Inr (getResponse False JNull (JStr ''`max` can only have a value of number.''))"
  | (standard) "\<not> truthy ds \<or> (isArray ds \<and> length (elements ds) = 0)"
      "truthy mx \<longrightarrow> typeof mx = ''number''"
      "checkEmail email options =
         (case RegExp_new (pattern ''^%w+([.-]?%w+)*@%w+([.-]?%w+)*(%.%w{2,''
                           @ ToString (if truthy mx then mx else three) @ pattern ''})+$'') of
            Inl e \<Rightarrow> Inl e
          | Inr standardPattern \<Rightarrow>
              Inr (getResponse (test standardPattern email) (JStr email) JUndefined))"
  | (domains_error)
      "checkEmail email options =
         Inr (getResponse False JNull
               (JStr ''`domains` can only have a value of string or array of strings.''))"
  | (both) "truthy mx"
      "checkEmail email options =
         Inr (getResponse False JNull
               (JStr ''`max` can only be used if `domains` are not provided.''))"
  | (bad_domain)
      "checkEmail email options =
         Inr (getResponse False (JStr email)
               (JStr (''`'' @ ToString ds @ ''` is not a valid domain.'')))"
  | (one) "test DOMAIN_REGEX (ToString emailDomain)"
      "checkEmail email options =
         (case destructure2 (split (CHR ''.'') (ToString emailDomain)) of
            (name, ext) \<Rightarrow>
              (case EMAIL_WITH_DOMAIN_REGEX name ext of
                 Inl e \<Rightarrow> Inl e
               | Inr re \<Rightarrow> Inr (getResponse (test re email) (JStr email) JUndefined)))"
  | (bad_list) "truthy (error (validateDomains (elements ds)))"
      "checkEmail email options =
         Inr (getResponse False (JStr email) (error (validateDomains (elements ds))))"
  | (many) "\<not> truthy (error (validateDomains (elements ds)))"
      "checkEmail email options =
         (case match_domains email (elements ds) of
            Inl e \<Rightarrow> Inl e
          | Inr isValid \<Rightarrow> Inr (getResponse isValid (JStr email) JUndefined))"
proof -
  define G1 where "G1 \<longleftrightarrow> truthy mx \<and> typeof mx \<noteq> ''number''"
  define G2 where "G2 \<longleftrightarrow> \<not> truthy ds \<or> (isArray ds \<and> length (elements ds) = 0)"
  define G3 where
    "G3 \<longleftrightarrow> \<not> (typeof ds = ''string''
       \<or> (isArray ds \<and> list_all (\<lambda>domain. typeof domain = ''string'') (elements ds)))"
  define G4 where "G4 \<longleftrightarrow> truthy mx"
  define G5 where "G5 \<longleftrightarrow> typeof ds = ''string'' \<or> length (elements ds) = 1"
  define G6 where "G6 \<longleftrightarrow> \<not> test DOMAIN_REGEX (ToString emailDomain)"
  define G7 where "G7 \<longleftrightarrow> truthy (error (validateDomains (elements ds)))"
  define A where
    "A = getResponse False JNull (JStr ''`max` can only have a value of number.'')"
  define B where
    "B = (case RegExp_new (pattern ''^%w+([.-]?%w+)*@%w+([.-]?%w+)*(%.%w{2,''
                          @ ToString (if truthy mx then mx else three) @ pattern ''})+$'') of
           Inl e \<Rightarrow> Inl e
         | Inr standardPattern \<Rightarrow>
             Inr (getResponse (test standardPattern email) (JStr email) JUndefined))"
  define C where
    "C = getResponse False JNull
          (JStr ''`domains` can only have a value of string or array of strings.'')"
  define D where
    "D = getResponse False JNull
          (JStr ''`max` can only be used if `domains` are not provided.'')"
  define E where
    "E = getResponse False (JStr email) (JStr (''`'' @ ToString ds @ ''` is not a valid domain.''))"
  define F where
    "F = (case destructure2 (split (CHR ''.'') (ToString emailDomain)) of
            (name, ext) \<Rightarrow>
              (case EMAIL_WITH_DOMAIN_REGEX name ext of
                 Inl e \<Rightarrow> Inl e
               | Inr re \<Rightarrow> Inr (getResponse (test re email) (JStr email) JUndefined)))"
  define H where
    "H = getResponse False (JStr email) (error (validateDomains (elements ds)))"
  define I where
    "I = (case match_domains email (elements ds) of
            Inl e \<Rightarrow> Inl e
          | Inr isValid \<Rightarrow> Inr (getResponse isValid (JStr email) JUndefined))"
  have eq: "checkEmail email options =
      (if G1 then Inr A else if G2 then B
       else if G3 then Inr C else if G4 then Inr D
       else if G5 then (if G6 then Inr E else F)
       else (if G7 then Inr H else I))"
    unfolding G1_def G2_def G3_def G4_def G5_def G6_def G7_def A_def B_def C_def D_def E_def
      F_def H_def I_def emailDomain_def ds_def mx_def checkEmail_def Let_def
    by (rule refl)
  consider (c1) "G1"
    | (c2) "\<not> G1" "G2"
    | (c3) "\<not> G1" "\<not> G2" "G3"
    | (c4) "\<not> G1" "\<not> G2" "\<not> G3" "G4"
    | (c5) "\<not> G1" "\<not> G2" "\<not> G3" "\<not> G4" "G5" "G6"
    | (c6) "\<not> G1" "\<not> G2" "\<not> G3" "\<not> G4" "G5" "\<not> G6"
    | (c7) "\<not> G1" "\<not> G2" "\<not> G3" "\<not> G4" "\<not> G5" "G7"
    | (c8) "\<not> G1" "\<not> G2" "\<not> G3" "\<not> G4" "\<not> G5" "\<not> G7"
    by blast
  then show ?thesis
  proof cases
    case c1
    then have "checkEmail email options = Inr A" by (simp add: eq)
    with c1 show ?thesis using type_error by (simp add: G1_def A_def)
  next
    case c2
    then have "checkEmail email options = B" by (simp add: eq)
    with c2 show ?thesis using standard by (simp add: G1_def G2_def B_def)
  next
    case c3
    then have "checkEmail email options = Inr C" by (simp add: eq)
    then show ?thesis using domains_error by (simp add: C_def)
  next
    case c4
    then have "checkEmail email options = Inr D" by (simp add: eq)
    with c4 show ?thesis using both by (simp add: G4_def D_def)
  next
    case c5
    then have "checkEmail email options = Inr E" by (simp add: eq)
    then show ?thesis using bad_domain by (simp add: E_def)
  next
    case c6
    then have "checkEmail email options = F" by (simp add: eq)
    with c6 show ?thesis using one by (simp add: G6_def F_def)
  next
    case c7
    then have "checkEmail email options = Inr H" by (simp add: eq)
    with c7 show ?thesis using bad_list by (simp add: G7_def H_def)
  next
    case c8
    then have "checkEmail email options = I" by (simp add: eq)
    with c8 show ?thesis using many by (simp add: G7_def I_def)
  qed
qed

text \<open>Every way in which \<open>checkEmail\<close> returns a result.\<close>

lemma checkEmail_result_cases:
  assumes "checkEmail email options = Inr r"
  obtains
    (type_error) "truthy (default_null (max_opt options))"
      "r = getResponse False JNull (JStr ''`max` can only have a value of number.'')"
  | (tested) b where "r = getResponse b (JStr email) JUndefined"
  | (domains_error)
      "r = getResponse False JNull
             (JStr ''`domains` can only have a value of string or array of strings.'')"
  | (both) "truthy (default_null (max_opt options))"
      "r = getResponse False JNull
             (JStr ''`max` can only be used if `domains` are not provided.'')"
  | (bad_domain)
      "r = getResponse False (JStr email)
             (JStr (''`'' @ ToString (domains options) @ ''` is not a valid domain.''))"
  | (bad_list) "truthy (error (validateDomains (elements (domains options))))"
      "r = getResponse False (JStr email) (error (validateDomains (elements (domains options))))"
proof (cases email options rule: checkEmail_cases)
  case type_error
  with assms that(1) show ?thesis by simp
next
  case standard
  with assms have "\<exists>b. r = getResponse b (JStr email) JUndefined"
    by (auto split: sum.splits)
  with that(2) show ?thesis by blast
next
  case domains_error
  with assms that(3) show ?thesis by simp
next
  case both
  with assms that(4) show ?thesis by simp
next
  case bad_domain
  with assms that(5) show ?thesis by simp
next
  case one
  with assms have "\<exists>b. r = getResponse b (JStr email) JUndefined"
    by (auto split: sum.splits prod.splits)
  with that(2) show ?thesis by blast
next
  case bad_list
  with assms that(6) show ?thesis by simp
next
  case many
  with assms have "\<exists>b. r = getResponse b (JStr email) JUndefined"
    by (auto split: sum.splits)
  with that(2) show ?thesis by blast
qed

lemma checkEmail_well_formed:
  assumes "checkEmail email options = Inr r"
  shows "well_formed r"
  using assms
proof (cases rule: checkEmail_result_cases)
  case bad_list
  from truthy_error_string [OF validateDomains_well_formed bad_list(1)] bad_list(2)
  show ?thesis by (auto intro: getResponse_well_formed)
qed (simp_all add: getResponse_well_formed)

text \<open>
  Claim C4: a result with \<open>valid = true\<close> carries no error, even when a message was
  passed to \<open>getResponse\<close>; a result with \<open>valid = false\<close> carries a non-empty string:
  the message passed when it is a non-empty string, and otherwise (an empty string,
  \<open>null\<close> or no message) the text of the email followed by \<open> is not a valid email.\<close>,
  the email being \<open>null\<close> when none was passed. Every result that \<open>checkEmail\<close>
  returns has that shape.
\<close>

theorem result_shape:
  "getResponse True e m = \<lparr>valid = True, error = JUndefined\<rparr>
   \<and> (s \<noteq> [] \<longrightarrow> getResponse False e (JStr s) = \<lparr>valid = False, error = JStr s\<rparr>)
   \<and> (m = JStr [] \<or> m = JNull \<or> m = JUndefined \<longrightarrow>
        getResponse False (JStr email) m =
          \<lparr>valid = False, error = JStr (email @ '' is not a valid email.'')\<rparr>
      \<and> getResponse False JNull m =
          \<lparr>valid = False, error = JStr ''null is not a valid email.''\<rparr>
      \<and> getResponse False JUndefined m =
          \<lparr>valid = False, error = JStr ''null is not a valid email.''\<rparr>)
   \<and> (checkEmail email options = Inr r \<longrightarrow>
        (valid r \<longrightarrow> error r = JUndefined)
      \<and> (\<not> valid r \<longrightarrow> (\<exists>msg. error r = JStr msg \<and> msg \<noteq> [])))"
proof (intro conjI impI)
  show "getResponse True e m = \<lparr>valid = True, error = JUndefined\<rparr>"
    by (rule getResponse_True)
next
  assume "s \<noteq> []"
  then show "getResponse False e (JStr s) = \<lparr>valid = False, error = JStr s\<rparr>"
    by (rule getResponse_message)
next
  assume m: "m = JStr [] \<or> m = JNull \<or> m = JUndefined"
  then have f: "\<not> truthy m" by auto
  show "getResponse False (JStr email) m =
      \<lparr>valid = False, error = JStr (email @ '' is not a valid email.'')\<rparr>"
    by (simp add: getResponse_default [OF f] default_null_def)
  show "getResponse False JNull m =
      \<lparr>valid = False, error = JStr ''null is not a valid email.''\<rparr>"
    by (simp add: getResponse_default [OF f] default_null_def)
  show "getResponse False JUndefined m =
      \<lparr>valid = False, error = JStr ''null is not a valid email.''\<rparr>"
    by (simp add: getResponse_default [OF f] default_null_def)
next
  assume r: "checkEmail email options = Inr r"
  {
    assume "valid r"
    then show "error r = JUndefined"
      using checkEmail_well_formed [OF r] by (simp add: well_formed_def)
  }
  {
    assume "\<not> valid r"
    then show "\<exists>msg. error r = JStr msg \<and> msg \<noteq> []"
      using checkEmail_well_formed [OF r] by (simp add: well_formed_def)
  }
qed

lemma plain_example:
  "checkEmail ''test@example.com'' \<lparr>domains = JUndefined, max_opt = JUndefined\<rparr> =
     Inr \<lparr>valid = True, error = JUndefined\<rparr>"
  by code_simp

lemma bad_example:
  "checkEmail ''bad-email'' \<lparr>domains = JUndefined, max_opt = JUndefined\<rparr> =
     Inr \<lparr>valid = False, error = JStr ''bad-email is not a valid email.''\<rparr>"
  by code_simp

theorem result_shape_witness:
  "checkEmail ''test@example.com'' \<lparr>domains = JUndefined, max_opt = JUndefined\<rparr> =
     Inr \<lparr>valid = True, error = JUndefined\<rparr>
   \<and> error \<lparr>valid = True, error = JUndefined\<rparr> = JUndefined
   \<and> checkEmail ''bad-email'' \<lparr>domains = JUndefined, max_opt = JUndefined\<rparr> =
     Inr \<lparr>valid = False, error = JStr ''bad-email is not a valid email.''\<rparr>
   \<and> (\<exists>msg. error \<lparr>valid = False, error = JStr ''bad-email is not a valid email.''\<rparr>
              = JStr msg \<and> msg \<noteq> [])
   \<and> getResponse False JNull (JStr ''custom'') = \<lparr>valid = False, error = JStr ''custom''\<rparr>
   \<and> getResponse False JNull JNull =
       \<lparr>valid = False, error = JStr ''null is not a valid email.''\<rparr>"
  using result_shape [of JNull JNull "''custom''" "''bad-email''"
      "\<lparr>domains = JUndefined, max_opt = JUndefined\<rparr>"
      "\<lparr>valid = False, error = JStr ''bad-email is not a valid email.''\<rparr>"]
    result_shape [of JNull JNull "''custom''" "''test@example.com''"
      "\<lparr>domains = JUndefined, max_opt = JUndefined\<rparr>"
      "\<lparr>valid = True, error = JUndefined\<rparr>"]
    plain_example bad_example
  by simp

section \<open>Falsy options\<close>

text \<open>The last two characters of a message tell the messages of \<open>checkEmail\<close> apart.\<close>

definition ending :: "string \<Rightarrow> string" where
  "ending s = drop (length s - 2) s"

lemma ending_append: "2 \<le> length s \<Longrightarrow> ending (xs @ s) = ending s"
  by (simp add: ending_def)

lemma ending_generic: "ending (email @ '' is not a valid email.'') = ''l.''"
  by (simp add: ending_append) (simp add: ending_def)

lemma ending_domain: "ending (''`'' @ d @ ''` is not a valid domain.'') = ''n.''"
proof -
  have "ending ((''`'' @ d) @ ''` is not a valid domain.'') = ending ''` is not a valid domain.''"
    by (rule ending_append) simp
  then show ?thesis by (simp add: ending_def)
qed

lemma ending_domains: "ending (''['' @ ds @ ''] are not valid domains.'') = ''s.''"
proof -
  have "ending ((''['' @ ds) @ ''] are not valid domains.'') = ending ''] are not valid domains.''"
    by (rule ending_append) simp
  then show ?thesis by (simp add: ending_def)
qed

definition other_message :: "ValidationResult \<Rightarrow> bool" where
  "other_message r =
     (error r = JUndefined
      \<or> (\<exists>m. error r = JStr m \<and> (ending m = ''l.'' \<or> ending m = ''n.'' \<or> ending m = ''s.'')))"

lemma tested_other: "other_message (getResponse b (JStr email) JUndefined)"
proof (cases b)
  case True
  then show ?thesis by (simp add: getResponse_True other_message_def)
next
  case False
  then show ?thesis
    by (simp add: getResponse_default default_null_def other_message_def ending_generic)
qed

lemma validateDomains_message:
  "error (validateDomains ds) = JUndefined
   \<or> (\<exists>x. error (validateDomains ds) = JStr (''['' @ x @ ''] are not valid domains.''))"
proof (cases "filter (\<lambda>domain. \<not> test DOMAIN_REGEX (ToString domain)) ds = []")
  case True
  then show ?thesis by (simp add: validateDomains_def getResponse_True)
next
  case False
  then have "error (validateDomains ds) =
      JStr (''['' @ Array_join '', ''
        (filter (\<lambda>domain. \<not> test DOMAIN_REGEX (ToString domain)) ds) @ ''] are not valid domains.'')"
    by (simp add: validateDomains_def Let_def getResponse_message)
  then show ?thesis by blast
qed

text \<open>
  With no truthy \<open>max\<close>, every result has no error or an error that ends like the
  generic message, the domain messages or the type error of \<open>domains\<close>.
\<close>

lemma checkEmail_other_message:
  assumes "checkEmail email options = Inr r" and "\<not> truthy (default_null (max_opt options))"
  shows "other_message r"
  using assms(1)
proof (cases rule: checkEmail_result_cases)
  case type_error
  with assms(2) show ?thesis by simp
next
  case (tested b)
  then show ?thesis by (simp add: tested_other)
next
  case domains_error
  have "ending ''`domains` can only have a value of string or array of strings.'' = ''s.''"
    by (simp add: ending_def)
  with domains_error show ?thesis
    by (simp add: getResponse_message other_message_def)
next
  case both
  with assms(2) show ?thesis by simp
next
  case bad_domain
  then show ?thesis
    using ending_domain [of "ToString (domains options)"]
    by (simp add: getResponse_message other_message_def)
next
  case bad_list
  from validateDomains_message [of "elements (domains options)"] bad_list(1)
  obtain x where x: "error (validateDomains (elements (domains options))) =
      JStr (''['' @ x @ ''] are not valid domains.'')"
    by auto
  have "getResponse False (JStr email) (JStr (''['' @ x @ ''] are not valid domains.'')) =
      \<lparr>valid = False, error = JStr (''['' @ x @ ''] are not valid domains.'')\<rparr>"
    by (rule getResponse_message) simp
  with bad_list(2) x show ?thesis
    using ending_domains [of x] by (simp add: other_message_def)
qed

lemma falsy_default_null: "\<not> truthy mx \<Longrightarrow> \<not> truthy (default_null mx)"
  by (cases mx) (simp_all add: default_null_def)

lemma checkEmail_falsy_max:
  assumes "\<not> truthy mx"
  shows "checkEmail email \<lparr>domains = ds, max_opt = mx\<rparr> =
         checkEmail email \<lparr>domains = ds, max_opt = JUndefined\<rparr>"
proof -
  have "\<not> truthy (default_null mx)" using assms by (rule falsy_default_null)
  then show ?thesis
    by (simp add: checkEmail_def default_null_def Let_def)
qed

text \<open>
  Claim C9: for every email and every \<open>domains\<close> value, a falsy \<open>max\<close> (\<open>0\<close>,
  \<open>NaN\<close>, \<open>null\<close>, and any other falsy value) is treated exactly as an absent
  \<open>max\<close>: the result is that of the call without \<open>max\<close>, it is neither the type error
  of \<open>max\<close> nor the mutual-exclusion error, and in unrestricted mode the pattern has
  the default bound 3.
\<close>

theorem falsy_max_is_absent:
  assumes "\<not> truthy mx"
  shows "checkEmail email \<lparr>domains = ds, max_opt = mx\<rparr> =
           checkEmail email \<lparr>domains = ds, max_opt = JUndefined\<rparr>
       \<and> checkEmail email \<lparr>domains = ds, max_opt = mx\<rparr> \<noteq>
           Inr \<lparr>valid = False, error = JStr ''`max` can only have a value of number.''\<rparr>
       \<and> checkEmail email \<lparr>domains = ds, max_opt = mx\<rparr> \<noteq>
           Inr \<lparr>valid = False,
                error = JStr ''`max` can only be used if `domains` are not provided.''\<rparr>
       \<and> (ds = JUndefined \<or> ds = JArr [] \<longrightarrow>
            checkEmail email \<lparr>domains = ds, max_opt = mx\<rparr> =
              (case RegExp_new (standard_source ''3'') of
                 Inl e \<Rightarrow> Inl e
               | Inr standardPattern \<Rightarrow>
                   Inr (getResponse (test standardPattern email) (JStr email) JUndefined)))"
proof (intro conjI impI)
  show "checkEmail email \<lparr>domains = ds, max_opt = mx\<rparr> =
      checkEmail email \<lparr>domains = ds, max_opt = JUndefined\<rparr>"
    using assms by (rule checkEmail_falsy_max)
next
  have f: "\<not> truthy (default_null (max_opt \<lparr>domains = ds, max_opt = mx\<rparr>))"
    using falsy_default_null [OF assms] by simp
  have t: "ending ''`max` can only have a value of number.'' = ''r.''"
    by (simp add: ending_def)
  show "checkEmail email \<lparr>domains = ds, max_opt = mx\<rparr> \<noteq>
      Inr \<lparr>valid = False, error = JStr ''`max` can only have a value of number.''\<rparr>"
  proof
    assume "checkEmail email \<lparr>domains = ds, max_opt = mx\<rparr> =
      Inr \<lparr>valid = False, error = JStr ''`max` can only have a value of number.''\<rparr>"
    from checkEmail_other_message [OF this f] t show False
      by (simp add: other_message_def)
  qed
  have m: "ending ''`max` can only be used if `domains` are not provided.'' = ''d.''"
    by (simp add: ending_def)
  show "checkEmail email \<lparr>domains = ds, max_opt = mx\<rparr> \<noteq>
      Inr \<lparr>valid = False,
           error = JStr ''`max` can only be used if `domains` are not provided.''\<rparr>"
  proof
    assume "checkEmail email \<lparr>domains = ds, max_opt = mx\<rparr> =
      Inr \<lparr>valid = False,
           error = JStr ''`max` can only be used if `domains` are not provided.''\<rparr>"
    from checkEmail_other_message [OF this f] m show False
      by (simp add: other_message_def)
  qed
next
  assume "ds = JUndefined \<or> ds = JArr []"
  then have d: "\<not> truthy ds \<or> ds = JArr []" by auto
  have "ToString three = ''3''" by code_simp
  then show "checkEmail email \<lparr>domains = ds, max_opt = mx\<rparr> =
      (case RegExp_new (standard_source ''3'') of
         Inl e \<Rightarrow> Inl e
       | Inr standardPattern \<Rightarrow>
           Inr (getResponse (test standardPattern email) (JStr email) JUndefined))"
    using checkEmail_unrestricted [OF d, of mx email] assms by simp
qed

lemma with_domain_example:
  "checkEmail ''test@example.com'' \<lparr>domains = JStr ''example.com'', max_opt = JUndefined\<rparr> =
     Inr \<lparr>valid = True, error = JUndefined\<rparr>"
  by code_simp

theorem falsy_max_is_absent_witness:
  "\<not> truthy (JNum (Zero False)) \<and> \<not> truthy (JNum NaN) \<and> \<not> truthy JNull
   \<and> checkEmail ''test@example.com''
       \<lparr>domains = JStr ''example.com'', max_opt = JNum (Zero False)\<rparr> =
       Inr \<lparr>valid = True, error = JUndefined\<rparr>
   \<and> checkEmail ''test@example.com'' \<lparr>domains = JStr ''example.com'', max_opt = JNum NaN\<rparr> =
       Inr \<lparr>valid = True, error = JUndefined\<rparr>
   \<and> checkEmail ''test@example.com'' \<lparr>domains = JStr ''example.com'', max_opt = JNull\<rparr> =
       Inr \<lparr>valid = True, error = JUndefined\<rparr>"
  using falsy_max_is_absent [of "JNum (Zero False)" "''test@example.com''" "JStr ''example.com''"]
    falsy_max_is_absent [of "JNum NaN" "''test@example.com''" "JStr ''example.com''"]
    falsy_max_is_absent [of JNull "''test@example.com''" "JStr ''example.com''"]
    with_domain_example
  by simp

text \<open>
  Claim C10: for every email and every \<open>max\<close>, the empty string as \<open>domains\<close> gives
  the result of the call without \<open>domains\<close>; it selects unrestricted mode, so with
  \<open>max\<close> absent, falsy or a number the email is tested against the standard pattern.
\<close>

theorem empty_string_domains_is_absent:
  "checkEmail email \<lparr>domains = JStr '''', max_opt = mx\<rparr> =
     checkEmail email \<lparr>domains = JUndefined, max_opt = mx\<rparr>
   \<and> (\<not> truthy mx \<or> typeof mx = ''number'' \<longrightarrow>
        checkEmail email \<lparr>domains = JStr '''', max_opt = mx\<rparr> =
          (case RegExp_new (standard_source (if truthy mx then ToString mx else ''3'')) of
             Inl e \<Rightarrow> Inl e
           | Inr standardPattern \<Rightarrow>
               Inr (getResponse (test standardPattern email) (JStr email) JUndefined)))"
proof (intro conjI impI)
  show "checkEmail email \<lparr>domains = JStr '''', max_opt = mx\<rparr> =
      checkEmail email \<lparr>domains = JUndefined, max_opt = mx\<rparr>"
    by (simp add: checkEmail_def Let_def)
next
  assume m: "\<not> truthy mx \<or> typeof mx = ''number''"
  have "ToString three = ''3''" by code_simp
  then show "checkEmail email \<lparr>domains = JStr '''', max_opt = mx\<rparr> =
      (case RegExp_new (standard_source (if truthy mx then ToString mx else ''3'')) of
         Inl e \<Rightarrow> Inl e
       | Inr standardPattern \<Rightarrow>
           Inr (getResponse (test standardPattern email) (JStr email) JUndefined))"
    using checkEmail_unrestricted [OF _ m, of "JStr ''''" email] by (cases "truthy mx") simp_all
qed

theorem empty_string_domains_is_absent_witness:
  "checkEmail ''test@example.com'' \<lparr>domains = JStr '''', max_opt = JUndefined\<rparr> =
     Inr \<lparr>valid = True, error = JUndefined\<rparr>
   \<and> checkEmail ''a@b.c'' \<lparr>domains = JStr '''', max_opt = JStr ''three''\<rparr> =
     Inr \<lparr>valid = False, error = JStr ''`max` can only have a value of number.''\<rparr>"
proof -
  have "checkEmail ''a@b.c'' \<lparr>domains = JUndefined, max_opt = JStr ''three''\<rparr> =
      Inr \<lparr>valid = False, error = JStr ''`max` can only have a value of number.''\<rparr>"
    by code_simp
  then show ?thesis
    using empty_string_domains_is_absent [of "''test@example.com''" JUndefined]
      empty_string_domains_is_absent [of "''a@b.c''" "JStr ''three''"]
      plain_example
    by simp
qed

section \<open>Exceptions\<close>

text \<open>
  The patterns that \<open>checkEmail\<close> builds stay inside the modelled part of the pattern
  grammar, and only the standard pattern can fail to parse. A pattern text leaves the
  modelled part at a group that begins with \<open>(?\<close>, at an escape other than \<open>\w\<close>,
  \<open>\d\<close> and an escaped syntax character, and at a class with an escape in it.
\<close>

definition unsupported :: "char \<Rightarrow> bool" where
  "unsupported e = (e \<noteq> CHR ''w'' \<and> e \<noteq> CHR ''d'' \<and> \<not> is_syntax_char e)"

fun trigger :: "string \<Rightarrow> bool" where
  "trigger [] = False"
| "trigger (c # cs) =
     (if c = CHR ''('' then cs \<noteq> [] \<and> hd cs = CHR ''?''
      else if c = CHR 0x5C then (case cs of [] \<Rightarrow> False | e # rest \<Rightarrow> unsupported e)
      else if c = CHR ''['' then class_body (class_start cs) = Inl NotModelled
      else False)"

fun clean :: "string \<Rightarrow> bool" where
  "clean [] = True"
| "clean (c # cs) = (\<not> trigger (c # cs) \<and> clean cs)"

lemma clean_dropWhile: "clean cs \<Longrightarrow> clean (dropWhile P cs)"
  by (induction cs) simp_all

lemma clean_after_digits: "dropWhile is_digit xs = c # r \<Longrightarrow> clean xs \<Longrightarrow> clean r"
  using clean_dropWhile [of xs is_digit] by simp

lemma braced_clean:
  assumes "braced cs = Some (q, r)" and "clean cs"
  shows "clean r"
proof (cases "dropWhile is_digit cs")
  case Nil
  with assms(1) show ?thesis by (simp add: braced_def Let_def split: if_splits)
next
  case (Cons c r2)
  have r2: "clean r2" using clean_after_digits [OF Cons assms(2)] .
  show ?thesis
  proof (cases "c = CHR ''}''")
    case True
    with assms(1) Cons have "r = r2" by (simp add: braced_def Let_def split: if_splits)
    with r2 show ?thesis by simp
  next
    case False
    with assms(1) Cons have comma: "c = CHR '',''"
      by (simp add: braced_def Let_def split: if_splits)
    show ?thesis
    proof (cases "dropWhile is_digit r2")
      case Nil
      have "braced cs = None"
        by (simp add: braced_def Let_def Cons comma Nil)
      with assms(1) show ?thesis by simp
    next
      case inner: (Cons c' r4)
      have "braced cs = Some (q, r) \<longrightarrow> r = r4"
        by (simp add: braced_def Let_def Cons comma inner)
      with assms(1) have "r = r4" by simp
      with clean_after_digits [OF inner r2] show ?thesis by simp
    qed
  qed
qed

lemma class_body_clean: "class_body cs = Inr (ranges, r) \<Longrightarrow> clean cs \<Longrightarrow> clean r"
  by (induction cs arbitrary: ranges rule: class_body.induct)
     (fastforce split: if_splits dest!: add_range_Inr)+

lemma lazy_clean: "clean cs \<Longrightarrow> clean (lazy cs)"
  by (cases cs) simp_all

lemma class_start_clean: "clean cs \<Longrightarrow> clean (class_start cs)"
  by (cases cs) simp_all

lemma emit_modelled: "r \<noteq> Inl NotModelled \<Longrightarrow> emit t r \<noteq> Inl NotModelled"
  by (cases r) (simp_all add: emit_def)

lemma tokenise_clean: "clean s \<Longrightarrow> tokenise s \<noteq> Inl NotModelled"
proof (induction s rule: length_induct)
  case (1 s)
  show ?case
  proof (cases s)
    case Nil
    then show ?thesis by simp
  next
    case (Cons c cs)
    with "1.prems" have nt: "\<not> trigger (c # cs)" and ccs: "clean cs" by simp_all
    have rec: "emit t (tokenise r) \<noteq> Inl NotModelled" if "clean r" "length r \<le> length cs" for t r
      using "1.IH" that Cons by (intro emit_modelled) simp
    have plain: "emit t (tokenise cs) \<noteq> Inl NotModelled" for t
      using rec [OF ccs] by simp
    have after: "emit t (tokenise (lazy cs)) \<noteq> Inl NotModelled" for t
      using rec [OF lazy_clean [OF ccs]] lazy_le [of cs] by simp
    have quant: "emit t (tokenise (lazy rest)) \<noteq> Inl NotModelled"
      if "braced cs = Some (bounds, rest)" for t bounds rest
      using rec [OF lazy_clean [OF braced_clean [OF that ccs]]] braced_lazy [OF that] by simp
    have cls: "emit t (tokenise rest) \<noteq> Inl NotModelled"
      if "class_body (class_start cs) = Inr (ranges, rest)" for t ranges rest
      using rec [OF class_body_clean [OF that class_start_clean [OF ccs]]] class_rest [OF that]
      by simp
    have esc: "emit t (tokenise rest) \<noteq> Inl NotModelled" if "cs = e # rest" for t e rest
      using rec [of rest] ccs that by simp
    consider (group) "c = CHR ''(''" | (brace) "c = CHR ''{''" | (bracket) "c = CHR ''[''"
      | (escape) "c = CHR 0x5C"
      | (other) "c \<noteq> CHR ''(''" "c \<noteq> CHR ''{''" "c \<noteq> CHR ''[''" "c \<noteq> CHR 0x5C"
      by blast
    then show ?thesis
    proof cases
      case group
      with nt plain show ?thesis unfolding Cons by simp
    next
      case brace
      with plain quant show ?thesis
        unfolding Cons by (simp split: option.splits prod.splits)
    next
      case bracket
      with nt cls show ?thesis
        unfolding Cons by (cases "class_body (class_start cs)") (auto split: prod.splits)
    next
      case escape
      with nt esc show ?thesis
        unfolding Cons by (cases cs) (auto simp add: unsupported_def)
    next
      case other
      with plain after show ?thesis unfolding Cons by simp
    qed
  qed
qed

lemma parse_modelled: "parse f stack ts \<noteq> Inl NotModelled"
  by (induction f stack ts rule: parse.induct) (simp_all split: list.splits prod.splits)

lemma RegExp_new_clean: "clean s \<Longrightarrow> RegExp_new s \<noteq> Inl NotModelled"
  using tokenise_clean [of s] parse_modelled
  by (cases "tokenise s") (simp_all add: RegExp_new_def)

subsection \<open>The text of a number in the standard pattern\<close>

definition harmless :: "char \<Rightarrow> bool" where
  "harmless c = (c \<noteq> CHR ''('' \<and> c \<noteq> CHR 0x5C \<and> c \<noteq> CHR ''['')"

lemma clean_harmless: "list_all harmless t \<Longrightarrow> clean (t @ rest) = clean rest"
  by (induction t) (simp_all add: harmless_def)

lemma digit_char_harmless: "d < 10 \<Longrightarrow> harmless (digit_char d)"
proof -
  assume "d < 10"
  then have "d = 0 \<or> d = 1 \<or> d = 2 \<or> d = 3 \<or> d = 4 \<or> d = 5 \<or> d = 6 \<or> d = 7
    \<or> d = 8 \<or> d = 9"
    by arith
  then show ?thesis
    by (elim disjE) (simp_all add: digit_char_def harmless_def)
qed

lemma decimal_harmless: "list_all harmless (decimal n)"
proof (induction n rule: decimal.induct)
  case (1 n)
  show ?case
  proof (cases "n < 10")
    case True
    then show ?thesis by (subst decimal.simps) (simp add: digit_char_harmless)
  next
    case False
    with 1 show ?thesis
      by (subst decimal.simps) (simp add: digit_char_harmless)
  qed
qed

lemma harmless_take: "list_all harmless ds \<Longrightarrow> list_all harmless (take k ds)"
  by (auto simp: list_all_iff dest: in_set_takeD)

lemma harmless_drop: "list_all harmless ds \<Longrightarrow> list_all harmless (drop k ds)"
  by (auto simp: list_all_iff dest: in_set_dropD)

lemma harmless_zeros: "list_all harmless (replicate k (CHR ''0''))"
  by (simp add: list_all_iff harmless_def)

lemma format_digits_harmless:
  assumes "list_all harmless ds"
  shows "list_all harmless (format_digits ds n)"
  using assms decimal_harmless [of "nat \<bar>n - 1\<bar>"]
  by (simp add: format_digits_def Let_def harmless_take harmless_drop harmless_zeros)
     (simp add: harmless_def)

lemma Number_toString_harmless: "list_all harmless (Number_toString x)"
proof (cases x)
  case (Finite sign s n)
  then show ?thesis
    using format_digits_harmless [OF decimal_harmless, of s n] by (simp add: harmless_def)
qed (simp_all add: harmless_def)

lemma standard_source_clean: "list_all harmless L \<Longrightarrow> clean (standard_source L)"
  by (simp add: standard_source_def pattern_def clean_harmless unsupported_def
      is_syntax_char_def add_range_def)

subsection \<open>The patterns of the domains\<close>

lemma domain_pattern_returns:
  assumes "test DOMAIN_REGEX d"
  shows "\<exists>name ext re. destructure2 (split (CHR ''.'') d) = (name, ext)
           \<and> EMAIL_WITH_DOMAIN_REGEX name ext = Inr re"
proof -
  from assms obtain label tld where f: "domain_format d label tld"
    unfolding test_DOMAIN_REGEX by blast
  from domain_regex_matches [OF f] split_domain [OF f] show ?thesis by blast
qed

lemma match_domains_returns:
  "\<forall>x \<in> set ds. test DOMAIN_REGEX (ToString x) \<Longrightarrow> \<exists>b. match_domains email ds = Inr b"
proof (induction ds)
  case Nil
  show ?case by (intro exI [of _ False]) simp
next
  case (Cons x ds)
  then have "test DOMAIN_REGEX (ToString x)" by simp
  from domain_pattern_returns [OF this] obtain name ext re
    where "destructure2 (split (CHR ''.'') (ToString x)) = (name, ext)"
      and "EMAIL_WITH_DOMAIN_REGEX name ext = Inr re"
    by blast
  with Cons show ?case by (cases "test re email") auto
qed

lemma validateDomains_passed:
  assumes "\<not> truthy (error (validateDomains ds))"
  shows "\<forall>x \<in> set ds. test DOMAIN_REGEX (ToString x)"
proof -
  have "filter (\<lambda>domain. \<not> test DOMAIN_REGEX (ToString domain)) ds = []"
  proof (rule ccontr)
    assume "filter (\<lambda>domain. \<not> test DOMAIN_REGEX (ToString domain)) ds \<noteq> []"
    then have "truthy (error (validateDomains ds))"
      by (simp add: validateDomains_def Let_def getResponse_message)
    with assms show False by simp
  qed
  then show ?thesis by (simp add: filter_empty_conv)
qed

text \<open>
  The only exception that \<open>checkEmail\<close> raises is the SyntaxError of the standard
  pattern, in unrestricted mode and with a truthy number as \<open>max\<close>.
\<close>

lemma checkEmail_throws:
  assumes "checkEmail email options = Inl e"
  shows "e = SyntaxError
       \<and> (\<exists>n. max_opt options = JNum n \<and> truthy (JNum n))
       \<and> (\<not> truthy (domains options)
          \<or> (isArray (domains options) \<and> length (elements (domains options)) = 0))"
proof (cases email options rule: checkEmail_cases)
  case type_error
  with assms show ?thesis by simp
next
  case standard
  define mx where "mx = default_null (max_opt options)"
  have t: "truthy mx"
  proof (rule ccontr)
    assume "\<not> truthy mx"
    moreover have "ToString three = ''3''" by code_simp
    ultimately show False
      using assms standard(3) standard_pattern_terms
      by (simp add: mx_def standard_source_def)
  qed
  with standard(2) have "typeof mx = ''number''" by (simp add: mx_def)
  with t obtain n where n: "mx = JNum n" by (cases mx) simp_all
  from t have same: "max_opt options = mx"
    by (cases "max_opt options") (simp_all add: mx_def default_null_def)
  have "clean (standard_source (ToString mx))"
    using n by (simp add: standard_source_clean Number_toString_harmless)
  then have "RegExp_new (standard_source (ToString mx)) \<noteq> Inl NotModelled"
    by (rule RegExp_new_clean)
  moreover have "RegExp_new (standard_source (ToString mx)) = Inl e"
    using assms standard(3) t
    by (simp add: mx_def [symmetric] standard_source_def split: sum.splits)
  ultimately have "e = SyntaxError" by (cases e) simp_all
  with n t same standard(1) show ?thesis by simp
next
  case domains_error
  with assms show ?thesis by simp
next
  case both
  with assms show ?thesis by simp
next
  case bad_domain
  with assms show ?thesis by simp
next
  case one
  from domain_pattern_returns [OF one(1)] one(2) assms show ?thesis by auto
next
  case bad_list
  with assms show ?thesis by simp
next
  case many
  from match_domains_returns [OF validateDomains_passed [OF many(1)], of email] many(2) assms
  show ?thesis by auto
qed

end
